theory Spec2Isabelle
  imports Main
begin

section \<open>Strings, numbers and lines\<close>

text \<open>
  JavaScript strings are modelled as \<^typ>\<open>string\<close>, a character being a byte: the
  characters the code tests for (space, digits, \<open>#\<close>, \<open>x\<close>, carriage return, line feed)
  are all of that kind, and the two further line terminators of JavaScript, U+2028 and
  U+2029, are outside the model. Issue numbers are natural numbers: the decimal
  conversions below are the ones JavaScript performs on integers that a double
  represents exactly.
\<close>

definition isSpace :: "char \<Rightarrow> bool" where
  "isSpace c = (c = CHR '' '')"

definition isDigit :: "char \<Rightarrow> bool" where
  "isDigit c = (c \<in> set ''0123456789'')"

text \<open>The characters that \<open>.\<close> of a regular expression does not match.\<close>

definition isLineTerminator :: "char \<Rightarrow> bool" where
  "isLineTerminator c = (c = CHR 0x0A \<or> c = CHR 0x0D)"

definition digitChar :: "nat \<Rightarrow> char" where
  "digitChar d = ''0123456789'' ! d"

definition digitVal :: "char \<Rightarrow> nat" where
  "digitVal c = of_char c - 48"

text \<open>Number to string, as in \<open>"#" + taskIssue.number\<close>.\<close>

fun showNat :: "nat \<Rightarrow> string" where
  "showNat n = (if n < 10 then [digitChar n] else showNat (n div 10) @ [digitChar (n mod 10)])"

declare showNat.simps [simp del]

text \<open>String of digits to number, as in \<open>parseInt(match.groups.number)\<close> and in the
  loose comparison \<open>match.groups.number != taskIssue.number\<close>.\<close>

definition parseInt :: "string \<Rightarrow> nat" where
  "parseInt ds = foldl (\<lambda>a c. 10 * a + digitVal c) 0 ds"

definition startsWith :: "string \<Rightarrow> string \<Rightarrow> bool" where
  "startsWith s p = (take (length p) s = p)"

definition endsWith :: "string \<Rightarrow> string \<Rightarrow> bool" where
  "endsWith s p = (length p \<le> length s \<and> drop (length s - length p) s = p)"

fun consHead :: "char \<Rightarrow> string list \<Rightarrow> string list" where
  "consHead c [] = [[c]]"
| "consHead c (l # ls) = (c # l) # ls"

text \<open>\<open>body.split(/\r?\n/g)\<close>: a line feed, with the carriage return before it if there
  is one, separates two lines; the result always has at least one line.\<close>

fun splitLines :: "string \<Rightarrow> string list" where
  "splitLines [] = [[]]"
| "splitLines [c] = (if c = CHR 0x0A then [[], []] else [[c]])"
| "splitLines (c # d # cs) =
     (if c = CHR 0x0A then [] # splitLines (d # cs)
      else if c = CHR 0x0D \<and> d = CHR 0x0A then [] # splitLines cs
      else consHead c (splitLines (d # cs)))"

text \<open>\<open>body.join("\r\n")\<close>.\<close>

fun joinLines :: "string list \<Rightarrow> string" where
  "joinLines [] = []"
| "joinLines [l] = l"
| "joinLines (l # k # ls) = l @ [CHR 0x0D, CHR 0x0A] @ joinLines (k # ls)"

section \<open>The task expression\<close>

text \<open>
  \<^verbatim>\<open>/(?<pre> *)- \[(?<closed>.)\] #(?<number>[0-9]+) *(?<title>.*)/\<close>

  The named groups of a match. At a given start position the expression matches in at
  most one way: fewer spaces for \<open>pre\<close> leave a space where \<open>-\<close> is expected, and after
  the digits the two starred parts accept anything, so the greedy choices are final.
\<close>

record groups =
  pre :: string
  closed :: string
  number :: string
  title :: string

definition matchAt :: "string \<Rightarrow> groups option" where
  "matchAt s =
     (let p = takeWhile isSpace s; r1 = dropWhile isSpace s in
      if startsWith r1 ''- ['' then
        (case drop 3 r1 of
           [] \<Rightarrow> None
         | c # r2 \<Rightarrow>
             if isLineTerminator c then None
             else if startsWith r2 ''] #'' then
               (let r3 = drop 3 r2; ds = takeWhile isDigit r3; r4 = dropWhile isDigit r3 in
                if ds = [] then None
                else Some \<lparr>pre = p, closed = [c], number = ds,
                       title = takeWhile (\<lambda>c. \<not> isLineTerminator c) (dropWhile isSpace r4)\<rparr>)
             else None)
      else None)"

text \<open>\<open>taskExpression.exec(line)\<close>: the expression has no anchor and no global flag, so
  the search starts at the first character and takes the leftmost start that matches.\<close>

fun exec :: "string \<Rightarrow> groups option" where
  "exec [] = matchAt []"
| "exec (c # cs) = (case matchAt (c # cs) of Some m \<Rightarrow> Some m | None \<Rightarrow> exec cs)"

section \<open>The Issue Store\<close>

record issue =
  issue_number :: nat
  issue_title :: string
  issue_body :: string
  issue_state :: string

record tevent =
  event :: string
  source_type :: string
  source_issue :: issue

datatype call =
    IssuesGet nat
  | IssuesUpdateState nat string
  | IssuesUpdateBody nat string
  | IssuesCreateComment nat string
  | IssuesListEventsForTimeline nat

text \<open>
  The world outside: the issues, the timeline of each issue, the calls made so far with
  their outcome (oldest first), the positions in that sequence at which a call fails,
  and whether \<open>core.setFailed\<close> has been called.
\<close>

record world =
  issues :: "nat \<rightharpoonup> issue"
  timeline :: "nat \<Rightarrow> tevent list"
  failing :: "nat set"
  calls :: "(call \<times> bool) list"
  failed :: bool

fun applyCall :: "call \<Rightarrow> (nat \<rightharpoonup> issue) \<Rightarrow> (nat \<rightharpoonup> issue)" where
  "applyCall (IssuesUpdateState n s) m =
     (case m n of None \<Rightarrow> m | Some i \<Rightarrow> m(n \<mapsto> i\<lparr>issue_state := s\<rparr>))"
| "applyCall (IssuesUpdateBody n b) m =
     (case m n of None \<Rightarrow> m | Some i \<Rightarrow> m(n \<mapsto> i\<lparr>issue_body := b\<rparr>))"
| "applyCall _ m = m"

definition octokit :: "call \<Rightarrow> world \<Rightarrow> bool \<times> world" where
  "octokit c w =
     (let ok = (length (calls w) \<notin> failing w) in
      (ok, w\<lparr>calls := calls w @ [(c, ok)],
             issues := (if ok then applyCall c (issues w) else issues w)\<rparr>))"

text \<open>\<open>try { await octokit... } catch(err) { core.setFailed(err); return false; }\<close>: the
  call and the handler; the caller returns when the first component is false.\<close>

definition tryCall :: "call \<Rightarrow> world \<Rightarrow> bool \<times> world" where
  "tryCall c w = (case octokit c w of (ok, w') \<Rightarrow> (ok, if ok then w' else w'\<lparr>failed := True\<rparr>))"

fun mutating :: "call \<Rightarrow> bool" where
  "mutating (IssuesGet n) = False"
| "mutating (IssuesListEventsForTimeline n) = False"
| "mutating _ = True"

text \<open>The mutations that reached the store.\<close>

definition mutations :: "world \<Rightarrow> call list" where
  "mutations w = filter mutating (map fst (filter snd (calls w)))"

record config =
  epicPrefix :: string
  tasksMarker :: string
  closeCompletedEpics :: string

section \<open>updateTask\<close>

text \<open>\<open>match.groups.pre + "- [" + (closed ? "x" : " ") + "] #" + taskIssue.number + " " +
  taskIssue.title\<close>, the expression that both branches of \<open>updateTask\<close> build the line with.\<close>

definition renderLine :: "string \<Rightarrow> bool \<Rightarrow> nat \<Rightarrow> string \<Rightarrow> string" where
  "renderLine p c n t = p @ ''- ['' @ (if c then ''x'' else '' '') @ ''] #'' @ showNat n @ '' '' @ t"

text \<open>What \<open>updateTask\<close> returns: \<open>null\<close>, \<open>false\<close> or an object with a line and a comment.\<close>

datatype result = RNull | RFalse | RUpdate string "string option"

definition taskComment :: "bool \<Rightarrow> bool \<Rightarrow> bool \<Rightarrow> nat \<Rightarrow> string option" where
  "taskComment updateState updateTitle taskIssueClosed n =
     (if updateState \<and> updateTitle then
        Some (''`EpicBot` refreshed the title for task #'' @ showNat n @ '' and marked it as `''
              @ (if taskIssueClosed then ''closed'' else ''open'') @ ''`.'')
      else if updateState then
        Some (''`EpicBot` marked task #'' @ showNat n @ '' as `''
              @ (if taskIssueClosed then ''closed'' else ''open'') @ ''`.'')
      else if updateTitle then
        Some (''`EpicBot` refreshed the title for task #'' @ showNat n @ ''.'')
      else None)"

text \<open>In the other branch the comment for a change of state alone is computed and
  dropped (the statement has no assignment), so it stays \<open>null\<close>.\<close>

definition epicComment :: "bool \<Rightarrow> bool \<Rightarrow> bool \<Rightarrow> nat \<Rightarrow> string option" where
  "epicComment updateState updateTitle epicIssueClosed n =
     (if updateState \<and> updateTitle then
        Some (''`EpicBot` '' @ (if epicIssueClosed then ''closed'' else ''opened'') @ '' task #''
              @ showNat n @ '' following changes in the Epic, and refreshed its title.'')
      else if updateState then None
      else if updateTitle then
        Some (''`EpicBot` refreshed the title for task #'' @ showNat n @ ''.'')
      else None)"

definition updateTask :: "nat \<Rightarrow> string \<Rightarrow> issue \<Rightarrow> bool \<Rightarrow> world \<Rightarrow> result \<times> world" where
  "updateTask epicNumber taskLine taskIssue taskIsTruth w =
     (case exec taskLine of
        None \<Rightarrow> (RNull, w)
      | Some m \<Rightarrow>
          if parseInt (number m) \<noteq> issue_number taskIssue then (RNull, w)
          else
            (let epicIssueClosed = (closed m = ''x'');
                 taskIssueClosed = (issue_state taskIssue = ''closed'');
                 updateState = (epicIssueClosed \<noteq> taskIssueClosed);
                 updateTitle = (title m \<noteq> issue_title taskIssue)
             in
               if \<not> updateTitle \<and> \<not> updateState then (RNull, w)
               else if taskIsTruth then
                 (RUpdate (renderLine (pre m) taskIssueClosed (issue_number taskIssue) (issue_title taskIssue))
                          (taskComment updateState updateTitle taskIssueClosed (issue_number taskIssue)), w)
               else
                 (let upd = RUpdate (renderLine (pre m) epicIssueClosed (issue_number taskIssue) (issue_title taskIssue))
                                    (epicComment updateState updateTitle epicIssueClosed (issue_number taskIssue))
                  in
                    if updateState then
                      (case tryCall (IssuesUpdateState (issue_number taskIssue)
                                       (if epicIssueClosed then ''closed'' else ''open'')) w of
                         (ok1, w1) \<Rightarrow>
                           if \<not> ok1 then (RFalse, w1)
                           else
                             (case tryCall (IssuesCreateComment (issue_number taskIssue)
                                              (''`EpicBot` '' @ (if epicIssueClosed then ''closed'' else ''re-opened'')
                                               @ '' this issue following changes in Epic #'' @ showNat epicNumber @ ''.'')) w1 of
                                (ok2, w2) \<Rightarrow> if \<not> ok2 then (RFalse, w2) else (upd, w2)))
                    else (upd, w))))"

section \<open>closeEpicIfComplete\<close>

text \<open>
  The loop of \<open>closeEpicIfComplete\<close> over the lines of the body, with its two variables
  \<open>inWorkload\<close> and \<open>nTasks\<close>. \<open>None\<close> is the \<open>return false\<close> inside the loop; \<open>Some n\<close> is
  the value of \<open>nTasks\<close> when the loop ends, by \<open>break\<close> or at the last line.
\<close>

fun closeScan :: "string \<Rightarrow> bool \<Rightarrow> nat \<Rightarrow> string list \<Rightarrow> nat option" where
  "closeScan marker inWorkload nTasks [] = Some nTasks"
| "closeScan marker inWorkload nTasks (line # rest) =
     (if startsWith line ''#'' \<and> endsWith line marker then closeScan marker True nTasks rest
      else if startsWith line ''#'' \<and> inWorkload then Some nTasks
      else if \<not> inWorkload then closeScan marker inWorkload nTasks rest
      else
        (case exec line of
           None \<Rightarrow> closeScan marker inWorkload nTasks rest
         | Some m \<Rightarrow>
             if closed m \<noteq> ''x'' then None
             else closeScan marker inWorkload (Suc nTasks) rest))"

definition closeEpicIfComplete :: "config \<Rightarrow> nat \<Rightarrow> string \<Rightarrow> world \<Rightarrow> bool \<times> world" where
  "closeEpicIfComplete cfg epicNumber epicBody w =
     (case closeScan (tasksMarker cfg) False 0 (splitLines epicBody) of
        None \<Rightarrow> (False, w)
      | Some nTasks \<Rightarrow>
          if nTasks = 0 then (False, w)
          else
            (case tryCall (IssuesCreateComment epicNumber
                             ''`EpicBot` closed this Epic as all tasks are complete.'') w of
               (ok1, w1) \<Rightarrow>
                 if \<not> ok1 then (False, w1)
                 else
                   (case tryCall (IssuesUpdateState epicNumber ''closed'') w1 of
                      (ok2, w2) \<Rightarrow> if \<not> ok2 then (False, w2) else (True, w2))))"

section \<open>updateEpic\<close>

text \<open>
  The loop of \<open>updateEpic\<close> over the indices of the body. \<open>None\<close> is a \<open>return false\<close>
  inside the loop; \<open>Some body\<close> is the array of lines when the loop ends. \<open>updateTask\<close>
  catches its own errors, so the handler around its call is never entered; a result of
  \<open>null\<close> or \<open>false\<close> is falsy and the loop continues with the next line.
  A failed \<open>issues.get\<close> and an issue that is not there both end the pass.
\<close>

function updateEpicLoop ::
  "config \<Rightarrow> nat \<Rightarrow> nat \<Rightarrow> string list \<Rightarrow> nat \<Rightarrow> bool \<Rightarrow> world \<Rightarrow> string list option \<times> world" where
  "updateEpicLoop cfg epicNumber nBodyLines body i inWorkload w =
     (if i < nBodyLines then
        (if startsWith (body ! i) ''#'' \<and> endsWith (body ! i) (tasksMarker cfg) then
           updateEpicLoop cfg epicNumber nBodyLines body (Suc i) True w
         else if startsWith (body ! i) ''#'' \<and> inWorkload then (Some body, w)
         else if \<not> inWorkload then updateEpicLoop cfg epicNumber nBodyLines body (Suc i) inWorkload w
         else
           (case exec (body ! i) of
              None \<Rightarrow> updateEpicLoop cfg epicNumber nBodyLines body (Suc i) inWorkload w
            | Some m \<Rightarrow>
                (case tryCall (IssuesGet (parseInt (number m))) w of
                   (ok, w1) \<Rightarrow>
                     if \<not> ok then (None, w1)
                     else
                       (case issues w1 (parseInt (number m)) of
                          None \<Rightarrow> (None, w1\<lparr>failed := True\<rparr>)
                        | Some taskIssue \<Rightarrow>
                            (case updateTask epicNumber (body ! i) taskIssue False w1 of
                               (RUpdate line comment, w2) \<Rightarrow>
                                 (case comment of
                                    None \<Rightarrow>
                                      updateEpicLoop cfg epicNumber nBodyLines (body[i := line]) (Suc i) inWorkload w2
                                  | Some text \<Rightarrow>
                                      (case tryCall (IssuesCreateComment epicNumber text) w2 of
                                         (ok3, w3) \<Rightarrow>
                                           if \<not> ok3 then (None, w3)
                                           else updateEpicLoop cfg epicNumber nBodyLines (body[i := line]) (Suc i) inWorkload w3))
                             | (_, w2) \<Rightarrow>
                                 updateEpicLoop cfg epicNumber nBodyLines body (Suc i) inWorkload w2)))))
      else (Some body, w))"
  by pat_completeness auto
termination
  by (relation "measure (\<lambda>(cfg, epicNumber, nBodyLines, body, i, inWorkload, w). nBodyLines - i)") auto

declare updateEpicLoop.simps [simp del]

definition updateEpic :: "config \<Rightarrow> issue \<Rightarrow> world \<Rightarrow> bool \<times> world" where
  "updateEpic cfg epicIssue w =
     (let body = splitLines (issue_body epicIssue) in
      case updateEpicLoop cfg (issue_number epicIssue) (length body) body 0 False w of
        (None, w1) \<Rightarrow> (False, w1)
      | (Some body', w1) \<Rightarrow>
          (let newBody = joinLines body' in
           case tryCall (IssuesUpdateBody (issue_number epicIssue) newBody) w1 of
             (ok, w2) \<Rightarrow>
               if \<not> ok then (False, w2)
               else if closeCompletedEpics cfg \<noteq> [] then
                 (True, snd (closeEpicIfComplete cfg (issue_number epicIssue) newBody w2))
               else (True, w2)))"

section \<open>updateTaskInEpic and updateEpicFromTask\<close>

text \<open>The loop of \<open>updateTaskInEpic\<close>; the result is \<open>null\<close> or the new body with the
  comment.\<close>

function updateTaskInEpicLoop ::
  "config \<Rightarrow> nat \<Rightarrow> issue \<Rightarrow> nat \<Rightarrow> string list \<Rightarrow> nat \<Rightarrow> bool \<Rightarrow> world
     \<Rightarrow> (string \<times> string option) option \<times> world" where
  "updateTaskInEpicLoop cfg epicNumber taskIssue nBodyLines body i inWorkload w =
     (if i < nBodyLines then
        (if startsWith (body ! i) ''#'' \<and> endsWith (body ! i) (tasksMarker cfg) then
           updateTaskInEpicLoop cfg epicNumber taskIssue nBodyLines body (Suc i) True w
         else if startsWith (body ! i) ''#'' \<and> inWorkload then (None, w)
         else if \<not> inWorkload then
           updateTaskInEpicLoop cfg epicNumber taskIssue nBodyLines body (Suc i) inWorkload w
         else
           (case exec (body ! i) of
              None \<Rightarrow> updateTaskInEpicLoop cfg epicNumber taskIssue nBodyLines body (Suc i) inWorkload w
            | Some m \<Rightarrow>
                if parseInt (number m) \<noteq> issue_number taskIssue then
                  updateTaskInEpicLoop cfg epicNumber taskIssue nBodyLines body (Suc i) inWorkload w
                else
                  (case updateTask epicNumber (body ! i) taskIssue True w of
                     (RUpdate line comment, w1) \<Rightarrow> (Some (joinLines (body[i := line]), comment), w1)
                   | (_, w1) \<Rightarrow> (None, w1))))
      else (None, w))"
  by pat_completeness auto
termination
  by (relation "measure (\<lambda>(cfg, epicNumber, taskIssue, nBodyLines, body, i, inWorkload, w). nBodyLines - i)") auto

declare updateTaskInEpicLoop.simps [simp del]

definition updateTaskInEpic ::
  "config \<Rightarrow> nat \<Rightarrow> string \<Rightarrow> issue \<Rightarrow> world \<Rightarrow> (string \<times> string option) option \<times> world" where
  "updateTaskInEpic cfg epicNumber epicBody taskIssue w =
     (let body = splitLines epicBody in
      updateTaskInEpicLoop cfg epicNumber taskIssue (length body) body 0 False w)"

text \<open>The loop of \<open>updateEpicFromTask\<close> over the events of the timeline.\<close>

fun updateEpicFromTaskLoop :: "config \<Rightarrow> issue \<Rightarrow> tevent list \<Rightarrow> world \<Rightarrow> bool \<times> world" where
  "updateEpicFromTaskLoop cfg taskIssue [] w = (True, w)"
| "updateEpicFromTaskLoop cfg taskIssue (ev # evs) w =
     (if event ev \<noteq> ''cross-referenced'' then updateEpicFromTaskLoop cfg taskIssue evs w
      else if source_type ev \<noteq> ''issue'' then updateEpicFromTaskLoop cfg taskIssue evs w
      else
        (let epicIssue = source_issue ev in
         if \<not> startsWith (issue_title epicIssue) (epicPrefix cfg) then
           updateEpicFromTaskLoop cfg taskIssue evs w
         else
           (case updateTaskInEpic cfg (issue_number epicIssue) (issue_body epicIssue) taskIssue w of
              (None, w1) \<Rightarrow> (False, w1)
            | (Some (newBody, comment), w1) \<Rightarrow>
                (case tryCall (IssuesUpdateBody (issue_number epicIssue) newBody) w1 of
                   (ok2, w2) \<Rightarrow>
                     if \<not> ok2 then (False, w2)
                     else
                       (case (case comment of
                                None \<Rightarrow> (True, w2)
                              | Some text \<Rightarrow> tryCall (IssuesCreateComment (issue_number epicIssue) text) w2) of
                          (ok3, w3) \<Rightarrow>
                            if \<not> ok3 then (False, w3)
                            else if closeCompletedEpics cfg \<noteq> [] then
                              updateEpicFromTaskLoop cfg taskIssue evs
                                (snd (closeEpicIfComplete cfg (issue_number epicIssue) newBody w3))
                            else updateEpicFromTaskLoop cfg taskIssue evs w3)))))"

definition updateEpicFromTask :: "config \<Rightarrow> issue \<Rightarrow> world \<Rightarrow> bool \<times> world" where
  "updateEpicFromTask cfg taskIssue w =
     (case tryCall (IssuesListEventsForTimeline (issue_number taskIssue)) w of
        (ok, w1) \<Rightarrow>
          if \<not> ok then (False, w1)
          else updateEpicFromTaskLoop cfg taskIssue (timeline w1 (issue_number taskIssue)) w1)"

section \<open>The workload section and the properties to be proved\<close>

text \<open>
  The lines that the scans offer to the task expression, with their indices: the ones
  after a heading that ends with the marker and before the next heading that does not.
  All four loops above delimit the section with the same three tests.
\<close>

fun workload :: "string \<Rightarrow> bool \<Rightarrow> nat \<Rightarrow> string list \<Rightarrow> (nat \<times> string) list" where
  "workload marker inWorkload i [] = []"
| "workload marker inWorkload i (line # rest) =
     (if startsWith line ''#'' \<and> endsWith line marker then workload marker True (Suc i) rest
      else if startsWith line ''#'' \<and> inWorkload then []
      else if \<not> inWorkload then workload marker inWorkload (Suc i) rest
      else (i, line) # workload marker inWorkload (Suc i) rest)"

text \<open>The matched checklist lines of the section, as groups.\<close>

definition workloadTasks :: "string \<Rightarrow> string list \<Rightarrow> groups list" where
  "workloadTasks marker ls = List.map_filter (\<lambda>(i, l). exec l) (workload marker False 0 ls)"

text \<open>At least one matched checklist line, and every one closed.\<close>

definition allTasksClosed :: "config \<Rightarrow> string \<Rightarrow> bool" where
  "allTasksClosed cfg epicBody =
     (let ts = workloadTasks (tasksMarker cfg) (splitLines epicBody)
      in ts \<noteq> [] \<and> list_all (\<lambda>m. closed m = ''x'') ts)"

text \<open>A line that matches the task expression with the number \<open>n\<close>, and the indices of
  such lines in the section.\<close>

definition isTaskLine :: "nat \<Rightarrow> string \<Rightarrow> bool" where
  "isTaskLine n l = (case exec l of None \<Rightarrow> False | Some m \<Rightarrow> parseInt (number m) = n)"

definition taskLineIndices :: "string \<Rightarrow> nat \<Rightarrow> string list \<Rightarrow> nat list" where
  "taskLineIndices marker n ls =
     map fst (filter (\<lambda>(i, l). isTaskLine n l) (workload marker False 0 ls))"

text \<open>A line rebuilt from its own groups: parsing, then rendering.\<close>

definition rerender :: "string \<Rightarrow> string option" where
  "rerender l =
     (case exec l of
        None \<Rightarrow> None
      | Some m \<Rightarrow> Some (renderLine (pre m) (closed m = ''x'') (parseInt (number m)) (title m)))"

text \<open>A line agrees with the store when it is no checklist line, or the task it names
  is there with the state and the title that the line shows.\<close>

definition agrees :: "(nat \<rightharpoonup> issue) \<Rightarrow> string \<Rightarrow> bool" where
  "agrees tasks l =
     (case exec l of
        None \<Rightarrow> True
      | Some m \<Rightarrow>
          (case tasks (parseInt (number m)) of
             None \<Rightarrow> False
           | Some t \<Rightarrow>
               issue_number t = parseInt (number m)
               \<and> (closed m = ''x'') = (issue_state t = ''closed'')
               \<and> title m = issue_title t))"

definition inSync :: "config \<Rightarrow> (nat \<rightharpoonup> issue) \<Rightarrow> string list \<Rightarrow> bool" where
  "inSync cfg tasks ls = list_all (\<lambda>(i, l). agrees tasks l) (workload (tasksMarker cfg) False 0 ls)"

subsection \<open>The Epic loop line by line\<close>

text \<open>
  What one iteration of the loop of \<open>updateEpic\<close> does with a line of the section: the
  new line and the world, or \<open>None\<close> for a \<open>return false\<close>.
\<close>

definition epicLine :: "nat \<Rightarrow> string \<Rightarrow> world \<Rightarrow> string option \<times> world" where
  "epicLine epicNumber line w =
     (case exec line of
        None \<Rightarrow> (Some line, w)
      | Some m \<Rightarrow>
          (case tryCall (IssuesGet (parseInt (number m))) w of
             (ok, w1) \<Rightarrow>
               if \<not> ok then (None, w1)
               else
                 (case issues w1 (parseInt (number m)) of
                    None \<Rightarrow> (None, w1\<lparr>failed := True\<rparr>)
                  | Some taskIssue \<Rightarrow>
                      (case updateTask epicNumber line taskIssue False w1 of
                         (RUpdate newLine comment, w2) \<Rightarrow>
                           (case comment of
                              None \<Rightarrow> (Some newLine, w2)
                            | Some text \<Rightarrow>
                                (case tryCall (IssuesCreateComment epicNumber text) w2 of
                                   (ok3, w3) \<Rightarrow> if \<not> ok3 then (None, w3) else (Some newLine, w3)))
                       | (_, w2) \<Rightarrow> (Some line, w2)))))"

text \<open>
  The same loop by recursion over the lines that remain: the result is what becomes of
  them. Lemma \<open>updateEpicLoop_epicLines\<close> below shows that it is the loop.
\<close>

fun consLine :: "string \<Rightarrow> string list option \<times> world \<Rightarrow> string list option \<times> world" where
  "consLine l (r, w) = (map_option ((#) l) r, w)"

fun epicLines :: "string \<Rightarrow> nat \<Rightarrow> bool \<Rightarrow> string list \<Rightarrow> world \<Rightarrow> string list option \<times> world" where
  "epicLines marker epicNumber inWorkload [] w = (Some [], w)"
| "epicLines marker epicNumber inWorkload (line # rest) w =
     (if startsWith line ''#'' \<and> endsWith line marker then
        consLine line (epicLines marker epicNumber True rest w)
      else if startsWith line ''#'' \<and> inWorkload then (Some (line # rest), w)
      else if \<not> inWorkload then consLine line (epicLines marker epicNumber inWorkload rest w)
      else
        (case epicLine epicNumber line w of
           (None, w1) \<Rightarrow> (None, w1)
         | (Some newLine, w1) \<Rightarrow> consLine newLine (epicLines marker epicNumber inWorkload rest w1)))"

subsection \<open>Tasks that the store knows\<close>

text \<open>
  A title that rendering and parsing give back: no line break in it and no space in
  front. A line is known to the store when it is no checklist line, or the task it
  names is there under its number with such a title.
\<close>

definition cleanTitle :: "string \<Rightarrow> bool" where
  "cleanTitle t = (list_all (\<lambda>c. \<not> isLineTerminator c) t \<and> take 1 t \<noteq> '' '')"

definition known :: "(nat \<rightharpoonup> issue) \<Rightarrow> string \<Rightarrow> bool" where
  "known s l =
     (case exec l of
        None \<Rightarrow> True
      | Some m \<Rightarrow>
          (case s (parseInt (number m)) of
             None \<Rightarrow> False
           | Some t \<Rightarrow> issue_number t = parseInt (number m) \<and> cleanTitle (issue_title t)))"

text \<open>The task number and the closed flag of every checklist line of a section.\<close>

definition keyFlags :: "(nat \<times> string) list \<Rightarrow> (nat \<times> bool) list" where
  "keyFlags sec =
     map (\<lambda>m. (parseInt (number m), closed m = ''x'')) (List.map_filter (\<lambda>(i, l). exec l) sec)"

text \<open>No two lines of the section name the same task with different status.\<close>

definition sameStatus :: "(nat \<times> string) list \<Rightarrow> bool" where
  "sameStatus sec =
     (\<forall>(k, c) \<in> set (keyFlags sec). \<forall>(k', c') \<in> set (keyFlags sec). k = k' \<longrightarrow> c = c')"

text \<open>Every line of the section that names task \<open>k\<close> shows the state that \<open>k\<close> has.\<close>

definition settled :: "(nat \<rightharpoonup> issue) \<Rightarrow> (nat \<times> string) list \<Rightarrow> nat \<Rightarrow> bool" where
  "settled s sec k =
     (\<forall>(k', c) \<in> set (keyFlags sec). k' = k \<longrightarrow> (\<forall>t. s k = Some t \<longrightarrow> c = (issue_state t = ''closed'')))"

definition sameTasks :: "(nat \<rightharpoonup> issue) \<Rightarrow> (nat \<rightharpoonup> issue) \<Rightarrow> bool" where
  "sameTasks s s' = (\<forall>k. map_option (\<lambda>t. (issue_number t, issue_title t)) (s' k)
                        = map_option (\<lambda>t. (issue_number t, issue_title t)) (s k))"

subsection \<open>A second run\<close>

text \<open>
  The mutations of a second Epic-driven run that follows a first one at once: its
  payload is the Epic as the store holds it after the first run.
\<close>

definition secondRunMutations :: "config \<Rightarrow> issue \<Rightarrow> world \<Rightarrow> call list" where
  "secondRunMutations cfg epicIssue w =
     (let w1 = snd (updateEpic cfg epicIssue w) in
      case issues w1 (issue_number epicIssue) of
        None \<Rightarrow> []
      | Some epic1 \<Rightarrow> drop (length (mutations w1)) (mutations (snd (updateEpic cfg epic1 w1))))"

subsection \<open>Example inputs\<close>

definition workloadConfig :: config where
  "workloadConfig = \<lparr>epicPrefix = ''Epic'', tasksMarker = ''Workload'', closeCompletedEpics = []\<rparr>"

definition closingConfig :: config where
  "closingConfig = \<lparr>epicPrefix = ''Epic'', tasksMarker = ''Workload'', closeCompletedEpics = ''true''\<rparr>"

definition task :: "nat \<Rightarrow> string \<Rightarrow> string \<Rightarrow> issue" where
  "task n t s = \<lparr>issue_number = n, issue_title = t, issue_body = [], issue_state = s\<rparr>"

definition epic :: "nat \<Rightarrow> string list \<Rightarrow> issue" where
  "epic n ls = \<lparr>issue_number = n, issue_title = ''Epic: example'', issue_body = joinLines ls,
                issue_state = ''open''\<rparr>"

definition crossReference :: "issue \<Rightarrow> tevent" where
  "crossReference i = \<lparr>event = ''cross-referenced'', source_type = ''issue'', source_issue = i\<rparr>"

text \<open>A world in which no call has been made yet.\<close>

definition store :: "(nat \<rightharpoonup> issue) \<Rightarrow> (nat \<Rightarrow> tevent list) \<Rightarrow> nat set \<Rightarrow> world" where
  "store m tm f = \<lparr>issues = m, timeline = tm, failing = f, calls = [], failed = False\<rparr>"

section \<open>Numbers and the task expression on rendered lines\<close>

lemma digitVal_digitChar: "d < 10 \<Longrightarrow> digitVal (digitChar d) = d"
proof -
  assume "d < 10"
  then have "d \<in> {0,1,2,3,4,5,6,7,8,9}" by auto
  then show ?thesis by (auto simp: digitVal_def digitChar_def)
qed

lemma isDigit_digitChar: "d < 10 \<Longrightarrow> isDigit (digitChar d)"
proof -
  assume "d < 10"
  then have "d \<in> {0,1,2,3,4,5,6,7,8,9}" by auto
  then show ?thesis by (auto simp: isDigit_def digitChar_def)
qed

lemma parseInt_snoc: "parseInt (ds @ [c]) = 10 * parseInt ds + digitVal c"
  by (simp add: parseInt_def)

lemma parseInt_showNat: "parseInt (showNat n) = n"
proof (induction n rule: showNat.induct)
  case (1 n)
  show ?case
  proof (cases "n < 10")
    case True
    then show ?thesis by (simp add: showNat.simps [of n] parseInt_def digitVal_digitChar)
  next
    case False
    with 1 show ?thesis
      by (simp add: showNat.simps [of n] parseInt_snoc digitVal_digitChar)
  qed
qed

lemma showNat_digits: "c \<in> set (showNat n) \<Longrightarrow> isDigit c"
proof (induction n rule: showNat.induct)
  case (1 n)
  then show ?case
    by (cases "n < 10") (auto simp: showNat.simps [of n] isDigit_digitChar)
qed

lemma showNat_nonempty: "showNat n \<noteq> []"
  by (subst showNat.simps) simp

lemma matchAt_renderLine:
  assumes p: "\<And>x. x \<in> set p \<Longrightarrow> isSpace x"
      and t: "\<And>x. x \<in> set t \<Longrightarrow> \<not> isLineTerminator x"
      and s: "t = [] \<or> \<not> isSpace (hd t)"
  shows "matchAt (renderLine p c n t) =
           Some \<lparr>pre = p, closed = (if c then ''x'' else '' ''), number = showNat n, title = t\<rparr>"
proof -
  let ?r1 = "''- ['' @ (if c then ''x'' else '' '') @ ''] #'' @ showNat n @ '' '' @ t"
  have tw: "takeWhile isSpace (renderLine p c n t) = p"
    using p by (simp add: renderLine_def takeWhile_append2 isSpace_def)
  have dw: "dropWhile isSpace (renderLine p c n t) = ?r1"
    using p by (simp add: renderLine_def dropWhile_append2 isSpace_def)
  have td: "takeWhile isDigit (showNat n @ CHR '' '' # t) = showNat n"
    using showNat_digits by (simp add: takeWhile_append2 isDigit_def)
  have dd: "dropWhile isDigit (showNat n @ CHR '' '' # t) = CHR '' '' # t"
    using showNat_digits by (simp add: dropWhile_append2 isDigit_def)
  have ds: "dropWhile isSpace t = t" "isSpace (CHR '' '')"
    using s by (cases t; simp add: isSpace_def)+
  have tt: "takeWhile (\<lambda>c. \<not> isLineTerminator c) t = t"
    using t by (simp add: takeWhile_eq_all_conv)
  have lt: "\<not> isLineTerminator (CHR ''x'')" "\<not> isLineTerminator (CHR '' '')"
    by (simp_all add: isLineTerminator_def)
  show ?thesis
    unfolding matchAt_def tw dw
    by (simp add: startsWith_def lt td dd ds tt showNat_nonempty Let_def)
qed

lemma exec_matchAt: "matchAt s = Some m \<Longrightarrow> exec s = Some m"
  by (cases s) simp_all

lemma exec_renderLine:
  assumes "\<And>x. x \<in> set p \<Longrightarrow> isSpace x"
      and "\<And>x. x \<in> set t \<Longrightarrow> \<not> isLineTerminator x"
      and "t = [] \<or> \<not> isSpace (hd t)"
  shows "exec (renderLine p c n t) =
           Some \<lparr>pre = p, closed = (if c then ''x'' else '' ''), number = showNat n, title = t\<rparr>"
  by (rule exec_matchAt) (rule matchAt_renderLine [OF assms])

lemma updateTask_null:
  assumes "exec taskLine = Some m"
      and "parseInt (number m) = issue_number taskIssue"
      and "(closed m = ''x'') = (issue_state taskIssue = ''closed'')"
      and "title m = issue_title taskIssue"
  shows "updateTask epicNumber taskLine taskIssue taskIsTruth w = (RNull, w)"
  using assms by (simp add: updateTask_def)

lemma tryCall_ok:
  "length (calls w) \<notin> failing w \<Longrightarrow>
     tryCall c w = (True, w\<lparr>calls := calls w @ [(c, True)], issues := applyCall c (issues w)\<rparr>)"
  by (simp add: tryCall_def octokit_def)

lemma tryCall_fail:
  "length (calls w) \<in> failing w \<Longrightarrow>
     tryCall c w = (False, w\<lparr>calls := calls w @ [(c, False)], failed := True\<rparr>)"
  by (simp add: tryCall_def octokit_def)

lemma updateTask_epic:
  assumes m: "exec taskLine = Some m"
      and n: "parseInt (number m) = issue_number taskIssue"
      and d: "(closed m = ''x'') \<noteq> (issue_state taskIssue = ''closed'') \<or> title m \<noteq> issue_title taskIssue"
      and ok: "length (calls w) \<notin> failing w" "Suc (length (calls w)) \<notin> failing w"
  shows "updateTask epicNumber taskLine taskIssue False w =
     (RUpdate (renderLine (pre m) (closed m = ''x'') (issue_number taskIssue) (issue_title taskIssue))
              (epicComment ((closed m = ''x'') \<noteq> (issue_state taskIssue = ''closed''))
                           (title m \<noteq> issue_title taskIssue) (closed m = ''x'') (issue_number taskIssue)),
      if (closed m = ''x'') \<noteq> (issue_state taskIssue = ''closed'') then
        w\<lparr>calls := calls w @
             [(IssuesUpdateState (issue_number taskIssue) (if closed m = ''x'' then ''closed'' else ''open''), True),
              (IssuesCreateComment (issue_number taskIssue)
                 (''`EpicBot` '' @ (if closed m = ''x'' then ''closed'' else ''re-opened'')
                  @ '' this issue following changes in Epic #'' @ showNat epicNumber @ ''.''), True)],
           issues := applyCall (IssuesUpdateState (issue_number taskIssue) (if closed m = ''x'' then ''closed'' else ''open'')) (issues w)\<rparr>
      else w)"
  using assms by (auto simp add: updateTask_def Let_def tryCall_ok)

section \<open>The scans and the workload section\<close>

lemma closeScan_workload:
  "closeScan marker iw n ls =
     (let ts = List.map_filter (\<lambda>(i, l). exec l) (workload marker iw i ls)
      in if list_all (\<lambda>m. closed m = ''x'') ts then Some (n + length ts) else None)"
proof (induction ls arbitrary: iw n i)
  case Nil
  show ?case by (simp add: map_filter_simps)
next
  case (Cons l ls)
  show ?case
    by (cases "exec l") (simp_all add: Cons.IH [where i = "Suc i"] map_filter_simps Let_def)
qed

lemma closeEpicIfComplete_not:
  "\<not> allTasksClosed cfg epicBody \<Longrightarrow> closeEpicIfComplete cfg epicNumber epicBody w = (False, w)"
  by (auto simp: closeEpicIfComplete_def allTasksClosed_def workloadTasks_def
        closeScan_workload [where i = 0] Let_def)

lemma closeEpicIfComplete_yes:
  assumes "allTasksClosed cfg epicBody"
      and "length (calls w) \<notin> failing w" "Suc (length (calls w)) \<notin> failing w"
  shows "closeEpicIfComplete cfg epicNumber epicBody w =
     (True, w\<lparr>calls := calls w @
                 [(IssuesCreateComment epicNumber ''`EpicBot` closed this Epic as all tasks are complete.'', True),
                  (IssuesUpdateState epicNumber ''closed'', True)],
              issues := applyCall (IssuesUpdateState epicNumber ''closed'') (issues w)\<rparr>)"
  using assms
  by (auto simp: closeEpicIfComplete_def allTasksClosed_def workloadTasks_def
        closeScan_workload [where i = 0] Let_def tryCall_ok)

lemma workload_index:
  "(j, l) \<in> set (workload marker iw i ls) \<Longrightarrow> i \<le> j \<and> j < i + length ls \<and> l = ls ! (j - i)"
proof (induction ls arbitrary: iw i)
  case Nil
  then show ?case by simp
next
  case (Cons a ls)
  from Cons.prems consider "j = i" "l = a"
    | iw' where "(j, l) \<in> set (workload marker iw' (Suc i) ls)"
    by (auto split: if_splits)
  then show ?case
  proof cases
    case 1
    then show ?thesis by simp
  next
    case 2
    from Cons.IH [OF 2] show ?thesis by (auto simp: nth_Cons')
  qed
qed

lemma updateTaskInEpicLoop_workload:
  "nBodyLines = length body \<Longrightarrow> i \<le> nBodyLines \<Longrightarrow>
   updateTaskInEpicLoop cfg epicNumber taskIssue nBodyLines body i inWorkload w =
     (case filter (\<lambda>(j, l). isTaskLine (issue_number taskIssue) l)
             (workload (tasksMarker cfg) inWorkload i (drop i body)) of
        [] \<Rightarrow> (None, w)
      | (j, l) # _ \<Rightarrow>
          (case updateTask epicNumber l taskIssue True w of
             (RUpdate line comment, w1) \<Rightarrow> (Some (joinLines (body[j := line]), comment), w1)
           | (_, w1) \<Rightarrow> (None, w1)))"
proof (induction cfg epicNumber taskIssue nBodyLines body i inWorkload w
        rule: updateTaskInEpicLoop.induct)
  case (1 cfg epicNumber taskIssue nBodyLines body i inWorkload w)
  show ?case
  proof (cases "i < nBodyLines")
    case False
    with 1(5,6) show ?thesis
      by (subst updateTaskInEpicLoop.simps) simp
  next
    case True
    with 1(5) have d: "drop i body = body ! i # drop (Suc i) body"
      by (simp add: Cons_nth_drop_Suc)
    from True have s: "Suc i \<le> nBodyLines" by simp
    have tl: "isTaskLine (issue_number taskIssue) (body ! i) =
        (case exec (body ! i) of None \<Rightarrow> False | Some m \<Rightarrow> parseInt (number m) = issue_number taskIssue)"
      by (simp add: isTaskLine_def)
    show ?thesis
      apply (subst updateTaskInEpicLoop.simps)
      using 1(1-4) 1(5) True s
      apply (auto simp: d tl split: option.splits prod.splits result.splits)
      done
  qed
qed

section \<open>The Epic loop on a body that agrees with the store\<close>

lemma agrees_updateTask:
  assumes "agrees (issues w) l" "exec l = Some m" "issues w (parseInt (number m)) = Some t"
  shows "updateTask epicNumber l t taskIsTruth w = (RNull, w)"
  using assms by (intro updateTask_null [where m = m]) (auto simp: agrees_def)

lemma updateEpicLoop_inSync:
  "nBodyLines = length body \<Longrightarrow> i \<le> nBodyLines \<Longrightarrow>
   list_all (\<lambda>(j, l). agrees (issues w) l) (workload (tasksMarker cfg) inWorkload i (drop i body)) \<Longrightarrow>
   \<forall>k \<ge> length (calls w). k \<notin> failing w \<Longrightarrow>
   updateEpicLoop cfg epicNumber nBodyLines body i inWorkload w =
     (Some body,
      w\<lparr>calls := calls w @
           map (\<lambda>m. (IssuesGet (parseInt (number m)), True))
             (List.map_filter (\<lambda>(j, l). exec l) (workload (tasksMarker cfg) inWorkload i (drop i body)))\<rparr>)"
proof (induction cfg epicNumber nBodyLines body i inWorkload w rule: updateEpicLoop.induct)
  case (1 cfg epicNumber nBodyLines body i inWorkload w)
  show ?case
  proof (cases "i < nBodyLines")
    case False
    with "1.prems"(1,2) show ?thesis
      by (subst updateEpicLoop.simps) (simp add:)
  next
    case True
    with "1.prems"(1) have d: "drop i body = body ! i # drop (Suc i) body"
      by (simp add: Cons_nth_drop_Suc)
    from True have s: "Suc i \<le> nBodyLines" by simp
    let ?line = "body ! i"
    consider (marker) "startsWith ?line ''#'' \<and> endsWith ?line (tasksMarker cfg)"
      | (heading) "\<not> (startsWith ?line ''#'' \<and> endsWith ?line (tasksMarker cfg))" "startsWith ?line ''#'' \<and> inWorkload"
      | (outside) "\<not> (startsWith ?line ''#'' \<and> endsWith ?line (tasksMarker cfg))" "\<not> (startsWith ?line ''#'' \<and> inWorkload)" "\<not> inWorkload"
      | (nomatch) "\<not> (startsWith ?line ''#'' \<and> endsWith ?line (tasksMarker cfg))" "\<not> (startsWith ?line ''#'' \<and> inWorkload)" "inWorkload" "exec ?line = None"
      | (match) m where "\<not> (startsWith ?line ''#'' \<and> endsWith ?line (tasksMarker cfg))" "\<not> (startsWith ?line ''#'' \<and> inWorkload)" "inWorkload" "exec ?line = Some m"
      by (cases "exec ?line") auto
    then show ?thesis
    proof cases
      case marker
      from "1.prems"(3) marker have "list_all (\<lambda>(j, l). agrees (issues w) l) (workload (tasksMarker cfg) True (Suc i) (drop (Suc i) body))"
        by (auto simp: d)
      from "1.IH"(1) [OF True marker "1.prems"(1) s this "1.prems"(4)] marker True show ?thesis
        by (subst updateEpicLoop.simps) (auto simp: d)
    next
      case heading
      with True show ?thesis
        by (subst updateEpicLoop.simps) (auto simp: d)
    next
      case outside
      from "1.prems"(3) outside have "list_all (\<lambda>(j, l). agrees (issues w) l) (workload (tasksMarker cfg) inWorkload (Suc i) (drop (Suc i) body))"
        by (auto simp: d)
      from "1.IH"(2) [OF True outside "1.prems"(1) s this "1.prems"(4)] outside True show ?thesis
        by (subst updateEpicLoop.simps) (auto simp: d)
    next
      case nomatch
      from "1.prems"(3) nomatch have "list_all (\<lambda>(j, l). agrees (issues w) l) (workload (tasksMarker cfg) inWorkload (Suc i) (drop (Suc i) body))"
        by (auto simp: d)
      from "1.IH"(3) [OF True nomatch(1,2) _ nomatch(4) "1.prems"(1) s this "1.prems"(4)] nomatch True show ?thesis
        by (subst updateEpicLoop.simps) (auto simp: d)
    next
      case match
      let ?k = "parseInt (number m)"
      let ?w1 = "w\<lparr>calls := calls w @ [(IssuesGet ?k, True)]\<rparr>"
      from "1.prems"(4) have nf: "length (calls w) \<notin> failing w" by simp
      have tc: "tryCall (IssuesGet ?k) w = (True, ?w1)"
        by (simp add: tryCall_ok [OF nf])
      from "1.prems"(3) match have ag: "agrees (issues w) ?line"
        and rest: "list_all (\<lambda>(j, l). agrees (issues ?w1) l) (workload (tasksMarker cfg) inWorkload (Suc i) (drop (Suc i) body))"
        by (simp_all add: d)
      from ag match(4) obtain t where t: "issues ?w1 ?k = Some t"
        by (auto simp: agrees_def split: option.splits)
      from ag have ag1: "agrees (issues ?w1) ?line" by simp
      have ut: "updateTask epicNumber ?line t False ?w1 = (RNull, ?w1)"
        by (rule agrees_updateTask [OF ag1 match(4) t])
      from "1.prems"(4) have nf1: "\<forall>k \<ge> length (calls ?w1). k \<notin> failing ?w1" by simp

      have ih: "updateEpicLoop cfg epicNumber nBodyLines body (Suc i) inWorkload ?w1 =
         (Some body, ?w1\<lparr>calls := calls ?w1 @
           map (\<lambda>m. (IssuesGet (parseInt (number m)), True))
             (List.map_filter (\<lambda>(j, l). exec l) (workload (tasksMarker cfg) inWorkload (Suc i) (drop (Suc i) body)))\<rparr>)"
        by (rule "1.IH"(4) [OF True match(1,2) _ match(4) tc [symmetric] _ t ut [symmetric] refl "1.prems"(1) s rest nf1])
          (simp_all add: match)
      show ?thesis
        apply (subst updateEpicLoop.simps)
        using match True ih
        apply (simp add: d tc t [simplified] ut)
        done
    qed
  qed
qed

section \<open>The Epic pass on a body that agrees with the store\<close>

lemma mutations_append:
  "mutations (w\<lparr>calls := calls w @ cs\<rparr>) = mutations w @ filter mutating (map fst (filter snd cs))"
  by (simp add: mutations_def)

lemma filter_gets: "filter mutating (map fst (filter snd (map (\<lambda>m. (IssuesGet (f m), True)) ms))) = []"
  by (induction ms) simp_all

lemma updateEpic_inSync:
  assumes sync: "inSync cfg (issues w) (splitLines (issue_body epicIssue))"
      and nf: "\<forall>k \<ge> length (calls w). k \<notin> failing w"
  shows "fst (updateEpic cfg epicIssue w) \<and>
         mutations (snd (updateEpic cfg epicIssue w)) =
           mutations w @
           IssuesUpdateBody (issue_number epicIssue) (joinLines (splitLines (issue_body epicIssue))) #
           (if closeCompletedEpics cfg \<noteq> [] \<and> allTasksClosed cfg (joinLines (splitLines (issue_body epicIssue)))
            then [IssuesCreateComment (issue_number epicIssue) ''`EpicBot` closed this Epic as all tasks are complete.'',
                  IssuesUpdateState (issue_number epicIssue) ''closed'']
            else [])"
proof -
  let ?ls = "splitLines (issue_body epicIssue)"
  let ?n = "issue_number epicIssue"
  let ?gets = "map (\<lambda>m. (IssuesGet (parseInt (number m)), True))
             (List.map_filter (\<lambda>(j, l). exec l) (workload (tasksMarker cfg) False 0 ?ls))"
  let ?w1 = "w\<lparr>calls := calls w @ ?gets\<rparr>"
  let ?w2 = "?w1\<lparr>calls := calls ?w1 @ [(IssuesUpdateBody ?n (joinLines ?ls), True)],
                 issues := applyCall (IssuesUpdateBody ?n (joinLines ?ls)) (issues ?w1)\<rparr>"
  from sync have "list_all (\<lambda>(j, l). agrees (issues w) l) (workload (tasksMarker cfg) False 0 (drop 0 ?ls))"
    by (simp add: inSync_def)
  from updateEpicLoop_inSync [OF refl _ this nf, of ?n]
  have loop: "updateEpicLoop cfg ?n (length ?ls) ?ls 0 False w = (Some ?ls, ?w1)"
    by simp
  from nf have nf1: "length (calls ?w1) \<notin> failing ?w1" by simp
  have tc: "tryCall (IssuesUpdateBody ?n (joinLines ?ls)) ?w1 = (True, ?w2)"
    by (rule tryCall_ok [OF nf1])
  have m2: "mutations ?w2 = mutations w @ [IssuesUpdateBody ?n (joinLines ?ls)]"
    by (simp add: mutations_def filter_gets)
  from nf have nf2: "length (calls ?w2) \<notin> failing ?w2" "Suc (length (calls ?w2)) \<notin> failing ?w2"
    by simp_all
  show ?thesis
  proof (cases "closeCompletedEpics cfg \<noteq> [] \<and> allTasksClosed cfg (joinLines ?ls)")
    case True
    with closeEpicIfComplete_yes [OF _ nf2, of cfg "joinLines ?ls" ?n] loop tc m2
    show ?thesis
      by (simp add: updateEpic_def Let_def mutations_def)
  next
    case False
    then consider "closeCompletedEpics cfg = []" | "closeCompletedEpics cfg \<noteq> []" "\<not> allTasksClosed cfg (joinLines ?ls)"
      by blast
    then show ?thesis
    proof cases
      case 1
      with loop tc m2 show ?thesis by (simp add: updateEpic_def Let_def)
    next
      case 2
      with loop tc m2 closeEpicIfComplete_not [OF 2(2), of ?n ?w2] show ?thesis
        by (simp add: updateEpic_def Let_def)
    qed
  qed
qed

lemma updateTask_truth_world: "snd (updateTask epicNumber l t True w) = w"
  by (simp add: updateTask_def Let_def split: option.splits)

lemma updateTask_task:
  assumes "exec taskLine = Some m"
      and "parseInt (number m) = issue_number taskIssue"
      and "(closed m = ''x'') \<noteq> (issue_state taskIssue = ''closed'') \<or> title m \<noteq> issue_title taskIssue"
  shows "updateTask epicNumber taskLine taskIssue True w =
     (RUpdate (renderLine (pre m) (issue_state taskIssue = ''closed'') (issue_number taskIssue) (issue_title taskIssue))
              (taskComment ((closed m = ''x'') \<noteq> (issue_state taskIssue = ''closed''))
                           (title m \<noteq> issue_title taskIssue) (issue_state taskIssue = ''closed'')
                           (issue_number taskIssue)), w)"
  using assms by (auto simp add: updateTask_def Let_def)

lemma updateTaskInEpic_workload:
  "updateTaskInEpic cfg epicNumber epicBody taskIssue w =
     (case taskLineIndices (tasksMarker cfg) (issue_number taskIssue) (splitLines epicBody) of
        [] \<Rightarrow> (None, w)
      | i # later \<Rightarrow>
          (case fst (updateTask epicNumber (splitLines epicBody ! i) taskIssue True w) of
             RUpdate line comment \<Rightarrow> (Some (joinLines ((splitLines epicBody)[i := line]), comment), w)
           | _ \<Rightarrow> (None, w)))"
proof -
  let ?ls = "splitLines epicBody"
  let ?hits = "filter (\<lambda>(j, l). isTaskLine (issue_number taskIssue) l) (workload (tasksMarker cfg) False 0 ?ls)"
  have loop: "updateTaskInEpic cfg epicNumber epicBody taskIssue w =
     (case ?hits of
        [] \<Rightarrow> (None, w)
      | (j, l) # _ \<Rightarrow>
          (case updateTask epicNumber l taskIssue True w of
             (RUpdate line comment, w1) \<Rightarrow> (Some (joinLines (?ls[j := line]), comment), w1)
           | (_, w1) \<Rightarrow> (None, w1)))"
    using updateTaskInEpicLoop_workload [OF refl, of 0 ?ls cfg epicNumber taskIssue False w]
    by (simp add: updateTaskInEpic_def Let_def)
  show ?thesis
  proof (cases ?hits)
    case Nil
    then show ?thesis by (simp add: loop taskLineIndices_def)
  next
    case (Cons p rest)
    obtain j l where p: "p = (j, l)" by (cases p)
    from Cons p have "(j, l) \<in> set ?hits" by simp
    then have "(j, l) \<in> set (workload (tasksMarker cfg) False 0 ?ls)" by simp
    from workload_index [OF this] have l: "l = ?ls ! j" by simp
    obtain r w1 where u: "updateTask epicNumber l taskIssue True w = (r, w1)"
      by (cases "updateTask epicNumber l taskIssue True w")
    with updateTask_truth_world [of epicNumber l taskIssue w] have w1: "w1 = w" by simp
    from Cons p have idx: "taskLineIndices (tasksMarker cfg) (issue_number taskIssue) ?ls = j # map fst rest"
      by (simp add: taskLineIndices_def)
    show ?thesis
      unfolding loop idx Cons p
      using u w1 l by (cases r) simp_all
  qed
qed

lemmas eval_defs =
  updateTask_def matchAt_def startsWith_def endsWith_def isSpace_def isDigit_def
  isLineTerminator_def parseInt_def digitVal_def digitChar_def renderLine_def taskComment_def
  epicComment_def showNat.simps task_def epic_def store_def workloadConfig_def
  crossReference_def tryCall_def octokit_def rerender_def

section \<open>The first run leaves the body and the store in agreement\<close>

lemma updateEpicLoop_step:
  "i < nBodyLines \<Longrightarrow>
   updateEpicLoop cfg epicNumber nBodyLines body i inWorkload w =
     (if startsWith (body ! i) ''#'' \<and> endsWith (body ! i) (tasksMarker cfg) then
        updateEpicLoop cfg epicNumber nBodyLines body (Suc i) True w
      else if startsWith (body ! i) ''#'' \<and> inWorkload then (Some body, w)
      else if \<not> inWorkload then updateEpicLoop cfg epicNumber nBodyLines body (Suc i) inWorkload w
      else
        (case epicLine epicNumber (body ! i) w of
           (None, w1) \<Rightarrow> (None, w1)
         | (Some newLine, w1) \<Rightarrow>
             updateEpicLoop cfg epicNumber nBodyLines (body[i := newLine]) (Suc i) inWorkload w1))"
  by (subst updateEpicLoop.simps)
     (simp add: epicLine_def split: option.splits prod.splits result.splits)

lemma consLine_case:
  "(case consLine l r of (None, w') \<Rightarrow> (None, w') | (Some ls, w') \<Rightarrow> (Some (xs @ ls), w'))
   = (case r of (None, w') \<Rightarrow> (None, w') | (Some ls, w') \<Rightarrow> (Some ((xs @ [l]) @ ls), w'))"
  by (cases r) (simp split: option.splits)

lemma updateEpicLoop_epicLines:
  "nBodyLines = length body \<Longrightarrow> i \<le> nBodyLines \<Longrightarrow>
   updateEpicLoop cfg epicNumber nBodyLines body i inWorkload w =
     (case epicLines (tasksMarker cfg) epicNumber inWorkload (drop i body) w of
        (None, w') \<Rightarrow> (None, w')
      | (Some ls, w') \<Rightarrow> (Some (take i body @ ls), w'))"
proof (induction k \<equiv> "nBodyLines - i" arbitrary: i body inWorkload w)
  case 0
  then show ?case
    by (subst updateEpicLoop.simps) simp
next
  case (Suc k)
  let ?line = "body ! i"
  let ?rest = "drop (Suc i) body"
  from Suc.hyps(2) have lt: "i < nBodyLines" by simp
  with Suc.prems(1) have d: "drop i body = ?line # ?rest"
    by (simp add: Cons_nth_drop_Suc)
  from lt Suc.prems(1) have t: "take (Suc i) body = take i body @ [?line]"
    by (simp add: take_Suc_conv_app_nth)
  from lt Suc.prems(1) have u: "\<And>l. take (Suc i) (body[i := l]) = take i body @ [l]"
    by (simp add: take_Suc_conv_app_nth)
  from Suc.hyps(2) have k: "k = nBodyLines - Suc i" by simp
  from lt have s: "Suc i \<le> nBodyLines" by simp
  have ih: "\<And>b iw v. nBodyLines = length b \<Longrightarrow>
      updateEpicLoop cfg epicNumber nBodyLines b (Suc i) iw v =
        (case epicLines (tasksMarker cfg) epicNumber iw (drop (Suc i) b) v of
           (None, w') \<Rightarrow> (None, w')
         | (Some ls, w') \<Rightarrow> (Some (take (Suc i) b @ ls), w'))"
    by (rule Suc.hyps(1) [OF k _ s])
  note ih0 = ih [OF Suc.prems(1), unfolded t]
  consider (marker) "startsWith ?line ''#'' \<and> endsWith ?line (tasksMarker cfg)"
    | (heading) "\<not> (startsWith ?line ''#'' \<and> endsWith ?line (tasksMarker cfg))" "startsWith ?line ''#'' \<and> inWorkload"
    | (outside) "\<not> (startsWith ?line ''#'' \<and> endsWith ?line (tasksMarker cfg))"
        "\<not> (startsWith ?line ''#'' \<and> inWorkload)" "\<not> inWorkload"
    | (inside) "\<not> (startsWith ?line ''#'' \<and> endsWith ?line (tasksMarker cfg))"
        "\<not> (startsWith ?line ''#'' \<and> inWorkload)" "inWorkload"
    by blast
  then show ?case
  proof cases
    case marker
    have L: "updateEpicLoop cfg epicNumber nBodyLines body i inWorkload w =
             updateEpicLoop cfg epicNumber nBodyLines body (Suc i) True w"
      using marker by (auto simp: updateEpicLoop_step [OF lt])
    have R: "epicLines (tasksMarker cfg) epicNumber inWorkload (drop i body) w =
             consLine ?line (epicLines (tasksMarker cfg) epicNumber True ?rest w)"
      using marker by (auto simp: d)
    show ?thesis
      by (simp only: L R consLine_case ih0)
  next
    case heading
    have L: "updateEpicLoop cfg epicNumber nBodyLines body i inWorkload w = (Some body, w)"
      using heading by (auto simp: updateEpicLoop_step [OF lt])
    have R: "epicLines (tasksMarker cfg) epicNumber inWorkload (drop i body) w = (Some (drop i body), w)"
      using heading by (auto simp: d)
    show ?thesis
      by (simp add: L R)
  next
    case outside
    have L: "updateEpicLoop cfg epicNumber nBodyLines body i inWorkload w =
             updateEpicLoop cfg epicNumber nBodyLines body (Suc i) inWorkload w"
      using outside by (auto simp: updateEpicLoop_step [OF lt])
    have R: "epicLines (tasksMarker cfg) epicNumber inWorkload (drop i body) w =
             consLine ?line (epicLines (tasksMarker cfg) epicNumber inWorkload ?rest w)"
      using outside by (auto simp: d)
    show ?thesis
      by (simp only: L R consLine_case ih0)
  next
    case inside
    obtain r w1 where e: "epicLine epicNumber ?line w = (r, w1)"
      by (cases "epicLine epicNumber ?line w")
    show ?thesis
    proof (cases r)
      case None
      have L: "updateEpicLoop cfg epicNumber nBodyLines body i inWorkload w = (None, w1)"
        using inside e None by (auto simp: updateEpicLoop_step [OF lt])
      have R: "epicLines (tasksMarker cfg) epicNumber inWorkload (drop i body) w = (None, w1)"
        using inside e None by (auto simp: d)
      show ?thesis
        by (simp add: L R)
    next
      case (Some newLine)
      from Suc.prems(1) have len: "nBodyLines = length (body[i := newLine])" by simp
      have dr: "drop (Suc i) (body[i := newLine]) = ?rest" by simp
      note ih1 = ih [OF len, unfolded u dr]
      have L: "updateEpicLoop cfg epicNumber nBodyLines body i inWorkload w =
               updateEpicLoop cfg epicNumber nBodyLines (body[i := newLine]) (Suc i) inWorkload w1"
        using inside e Some by (auto simp: updateEpicLoop_step [OF lt])
      have R: "epicLines (tasksMarker cfg) epicNumber inWorkload (drop i body) w =
               consLine newLine (epicLines (tasksMarker cfg) epicNumber inWorkload ?rest w1)"
        using inside e Some by (auto simp: d)
      show ?thesis
        by (simp only: L R consLine_case ih1)
    qed
  qed
qed

lemma matchAt_pre: "matchAt s = Some m \<Longrightarrow> x \<in> set (pre m) \<Longrightarrow> isSpace x"
  by (auto simp: matchAt_def Let_def split: if_splits list.splits dest: set_takeWhileD)

lemma exec_pre: "exec s = Some m \<Longrightarrow> x \<in> set (pre m) \<Longrightarrow> isSpace x"
  by (induction s) (auto split: option.splits dest: matchAt_pre)

lemma cleanTitle_D:
  "cleanTitle t \<Longrightarrow> x \<in> set t \<Longrightarrow> \<not> isLineTerminator x"
  "cleanTitle t \<Longrightarrow> t = [] \<or> \<not> isSpace (hd t)"
  by (cases t; auto simp: cleanTitle_def list_all_iff isSpace_def)+

lemma exec_rebuilt:
  assumes "exec l = Some m" "cleanTitle t"
  shows "exec (renderLine (pre m) c n t) =
           Some \<lparr>pre = pre m, closed = (if c then ''x'' else '' ''), number = showNat n, title = t\<rparr>"
  using assms by (intro exec_renderLine) (auto dest: exec_pre cleanTitle_D)

lemma renderLine_no_heading:
  assumes "\<And>x. x \<in> set p \<Longrightarrow> isSpace x"
  shows "\<not> startsWith (renderLine p c n t) ''#''"
  using assms by (cases p) (auto simp: startsWith_def renderLine_def isSpace_def)

lemma renderLine_no_LF:
  assumes "\<And>x. x \<in> set p \<Longrightarrow> isSpace x" "cleanTitle t"
  shows "CHR 0x0A \<notin> set (renderLine p c n t)"
proof -
  have "CHR 0x0A \<notin> set p" using assms(1) by (auto simp: isSpace_def)
  moreover have "CHR 0x0A \<notin> set (showNat n)" using showNat_digits by (auto simp: isDigit_def)
  moreover have "CHR 0x0A \<notin> set t" using cleanTitle_D(1) [OF assms(2)] by (auto simp: isLineTerminator_def)
  ultimately show ?thesis by (simp add: renderLine_def)
qed

lemma epicLine_known:
  assumes nf: "failing w = {}" and kn: "known (issues w) l"
  shows "\<exists>l' w'. epicLine e l w = (Some l', w') \<and> failing w' = {} \<and> agrees (issues w') l'
           \<and> sameTasks (issues w) (issues w')
           \<and> (\<forall>k. settled (issues w) [(i, l)] k \<longrightarrow> issues w' k = issues w k)
           \<and> (\<not> startsWith l ''#'' \<longrightarrow> \<not> startsWith l' ''#'')
           \<and> (CHR 0x0A \<notin> set l \<longrightarrow> CHR 0x0A \<notin> set l')
           \<and> keyFlags [(i, l')] = keyFlags [(i, l)]"
proof (cases "exec l")
  case None
  then show ?thesis
    using nf by (simp add: epicLine_def agrees_def sameTasks_def)
next
  case (Some m)
  let ?k = "parseInt (number m)"
  let ?w1 = "w\<lparr>calls := calls w @ [(IssuesGet ?k, True)]\<rparr>"
  from kn Some obtain t where t: "issues w ?k = Some t" "issue_number t = ?k" "cleanTitle (issue_title t)"
    by (auto simp: known_def split: option.splits)
  have g: "tryCall (IssuesGet ?k) w = (True, ?w1)"
    using nf by (simp add: tryCall_ok)
  let ?ec = "closed m = ''x''"
  have tn: "keyFlags [(i, l)] = [(?k, ?ec)]"
    using Some by (simp add: keyFlags_def)
  let ?sd = "?ec \<noteq> (issue_state t = ''closed'')"
  let ?td = "title m \<noteq> issue_title t"
  show ?thesis
  proof (cases "?sd \<or> ?td")
    case False
    then have u: "updateTask e l t False ?w1 = (RNull, ?w1)"
      using Some t by (intro updateTask_null [where m = m]) auto
    have a: "agrees (issues ?w1) l"
      using Some t False by (simp add: agrees_def)
    have el: "epicLine e l w = (Some l, ?w1)"
      using Some g t u by (simp add: epicLine_def)
    show ?thesis
      using el a nf by (simp add: sameTasks_def)
  next
    case True
    let ?st = "if ?ec then ''closed'' else ''open''"
    let ?l' = "renderLine (pre m) ?ec ?k (issue_title t)"
    let ?c = "epicComment ?sd ?td ?ec ?k"
    let ?w2 = "if ?sd then
        ?w1\<lparr>calls := calls ?w1 @
             [(IssuesUpdateState ?k ?st, True),
              (IssuesCreateComment ?k
                 (''`EpicBot` '' @ (if ?ec then ''closed'' else ''re-opened'')
                  @ '' this issue following changes in Epic #'' @ showNat e @ ''.''), True)],
           issues := applyCall (IssuesUpdateState ?k ?st) (issues ?w1)\<rparr>
      else ?w1"
    have nf1: "length (calls ?w1) \<notin> failing ?w1" "Suc (length (calls ?w1)) \<notin> failing ?w1"
      using nf by simp_all
    have u: "updateTask e l t False ?w1 = (RUpdate ?l' ?c, ?w2)"
      using updateTask_epic [OF Some _ _ nf1, of t e] True t(2) by simp
    have nf2: "failing ?w2 = {}" using nf by simp
    have i2: "issues ?w2 = (if ?sd then (issues w)(?k \<mapsto> t\<lparr>issue_state := ?st\<rparr>) else issues w)"
      using t(1) by simp
    obtain w3 where el: "epicLine e l w = (Some ?l', w3)" and nf3: "failing w3 = {}"
      and i3: "issues w3 = issues ?w2"
    proof (cases "?c")
      case None
      with Some g t u have "epicLine e l w = (Some ?l', ?w2)"
        by (simp add: epicLine_def)
      with nf2 that show ?thesis by blast
    next
      case (Some msg)
      let ?w3 = "?w2\<lparr>calls := calls ?w2 @ [(IssuesCreateComment e msg, True)]\<rparr>"
      have "tryCall (IssuesCreateComment e msg) ?w2 = (True, ?w3)"
        using nf2 by (simp add: tryCall_ok)
      with \<open>exec l = Some m\<close> Some g t u have "epicLine e l w = (Some ?l', ?w3)"
        by (simp add: epicLine_def)
      moreover have "failing ?w3 = {}" using nf by simp
      moreover have "issues ?w3 = issues ?w2" by simp
      ultimately show ?thesis using that by blast
    qed
    have i: "issues w3 = (if ?sd then (issues w)(?k \<mapsto> t\<lparr>issue_state := ?st\<rparr>) else issues w)"
      unfolding i3 by (rule i2)
    have ex: "exec ?l' = Some \<lparr>pre = pre m, closed = (if ?ec then ''x'' else '' ''), number = showNat ?k,
                                title = issue_title t\<rparr>"
      by (rule exec_rebuilt [OF Some t(3)])
    have a: "agrees (issues w3) ?l'"
      using True t by (auto simp: agrees_def ex i parseInt_showNat)
    have s: "sameTasks (issues w) (issues w3)"
      using t by (simp add: sameTasks_def i)
    have f: "\<forall>k. settled (issues w) [(i, l)] k \<longrightarrow> issues w3 k = issues w k"
      using t(1) by (auto simp: tn i settled_def)
    have h: "\<not> startsWith ?l' ''#''"
      by (rule renderLine_no_heading) (rule exec_pre [OF Some])
    have n: "CHR 0x0A \<notin> set ?l'"
      by (rule renderLine_no_LF [OF exec_pre [OF Some] t(3)])
    have tn': "keyFlags [(i, ?l')] = keyFlags [(i, l)]"
      using Some by (simp add: keyFlags_def ex parseInt_showNat)
    from el nf3 a s f h n tn' show ?thesis by blast
  qed
qed

lemma known_sameTasks: "sameTasks s s' \<Longrightarrow> known s' l = known s l"
proof -
  assume a: "sameTasks s s'"
  show ?thesis
  proof (cases "exec l")
    case None
    then show ?thesis by (simp add: known_def)
  next
    case (Some m)
    from a have "map_option (\<lambda>t. (issue_number t, issue_title t)) (s' (parseInt (number m)))
               = map_option (\<lambda>t. (issue_number t, issue_title t)) (s (parseInt (number m)))"
      by (simp add: sameTasks_def)
    then show ?thesis
      using Some by (auto simp: known_def split: option.splits)
  qed
qed

lemma sameTasks_trans: "sameTasks a b \<Longrightarrow> sameTasks b c \<Longrightarrow> sameTasks a c"
  by (simp add: sameTasks_def)

lemma sameTasks_refl: "sameTasks a a"
  by (simp add: sameTasks_def)

lemma agrees_frame:
  "(\<And>k c. (k, c) \<in> set (keyFlags [(i, l)]) \<Longrightarrow> s' k = s k) \<Longrightarrow> agrees s' l = agrees s l"
  by (cases "exec l") (simp_all add: agrees_def keyFlags_def)

lemma agrees_keyFlags:
  "agrees s l \<Longrightarrow> (k, c) \<in> set (keyFlags [(i, l)]) \<Longrightarrow> s k = Some t \<Longrightarrow> c = (issue_state t = ''closed'')"
  by (cases "exec l") (auto simp: agrees_def keyFlags_def split: option.splits)

lemma keyFlags_Cons: "keyFlags (x # sec) = keyFlags [x] @ keyFlags sec"
  by (cases x) (simp add: keyFlags_def split: option.splits)

lemma keyFlags_set: "set (keyFlags (x # sec)) = set (keyFlags [x]) \<union> set (keyFlags sec)"
  using keyFlags_Cons [of x sec] by simp

lemma sameStatus_iff:
  "sameStatus sec \<longleftrightarrow>
     (\<forall>k c c'. (k, c) \<in> set (keyFlags sec) \<longrightarrow> (k, c') \<in> set (keyFlags sec) \<longrightarrow> c = c')"
  by (auto simp: sameStatus_def)

lemma settled_iff:
  "settled s sec k \<longleftrightarrow>
     (\<forall>c t. (k, c) \<in> set (keyFlags sec) \<longrightarrow> s k = Some t \<longrightarrow> c = (issue_state t = ''closed''))"
  by (auto simp: settled_def)

lemma keyFlags_mem:
  "p \<in> set (keyFlags (x # sec)) \<longleftrightarrow> p \<in> set (keyFlags [x]) \<or> p \<in> set (keyFlags sec)"
  using keyFlags_Cons [of x sec] by simp

lemma sameStatus_Cons:
  assumes "sameStatus (x # sec)"
  shows "sameStatus sec"
    and "\<And>k c c'. (k, c) \<in> set (keyFlags [x]) \<Longrightarrow> (k, c') \<in> set (keyFlags sec) \<Longrightarrow> c' = c"
proof -
  from assms have a: "\<And>k c c'. (k, c) \<in> set (keyFlags (x # sec)) \<Longrightarrow> (k, c') \<in> set (keyFlags (x # sec)) \<Longrightarrow> c = c'"
    unfolding sameStatus_iff by blast
  show "sameStatus sec"
    unfolding sameStatus_iff
  proof (intro allI impI)
    fix k c c'
    assume "(k, c) \<in> set (keyFlags sec)" "(k, c') \<in> set (keyFlags sec)"
    then have "(k, c) \<in> set (keyFlags (x # sec))" "(k, c') \<in> set (keyFlags (x # sec))"
      by (simp_all only: keyFlags_mem [of _ x sec] simp_thms)
    then show "c = c'" by (rule a)
  qed
  fix k c c'
  assume "(k, c) \<in> set (keyFlags [x])" "(k, c') \<in> set (keyFlags sec)"
  then have "(k, c') \<in> set (keyFlags (x # sec))" "(k, c) \<in> set (keyFlags (x # sec))"
    by (simp_all only: keyFlags_mem [of _ x sec] simp_thms)
  then show "c' = c" by (rule a)
qed

lemma settled_Cons:
  "settled s (x # sec) k \<longleftrightarrow> settled s [x] k \<and> settled s sec k"
  unfolding settled_iff keyFlags_mem [of _ x sec] by blast

lemma settled_cong: "s' k = s k \<Longrightarrow> settled s' sec k = settled s sec k"
  by (simp add: settled_def)

lemma list_all_known_sameTasks:
  "sameTasks s s' \<Longrightarrow> list_all (\<lambda>(j, l). known s l) sec \<Longrightarrow> list_all (\<lambda>(j, l). known s' l) sec"
  by (auto simp: list_all_iff known_sameTasks)

lemma epicLines_sync:
  assumes "failing w = {}"
      and "list_all (\<lambda>(j, l). known (issues w) l) (workload marker iw i ls)"
      and "sameStatus (workload marker iw i ls)"
  shows "\<exists>ls' w'. epicLines marker e iw ls w = (Some ls', w') \<and> length ls' = length ls \<and> failing w' = {}
           \<and> list_all (\<lambda>(j, l). agrees (issues w') l) (workload marker iw i ls')
           \<and> sameTasks (issues w) (issues w')
           \<and> (\<forall>k. settled (issues w) (workload marker iw i ls) k \<longrightarrow> issues w' k = issues w k)
           \<and> ((\<forall>l \<in> set ls. CHR 0x0A \<notin> set l) \<longrightarrow> (\<forall>l \<in> set ls'. CHR 0x0A \<notin> set l))"
  using assms
proof (induction ls arbitrary: iw i w)
  case Nil
  then show ?case by (simp add: sameTasks_refl)
next
  case (Cons l ls)
  consider (marker) "startsWith l ''#'' \<and> endsWith l marker"
    | (heading) "\<not> (startsWith l ''#'' \<and> endsWith l marker)" "startsWith l ''#'' \<and> iw"
    | (outside) "\<not> (startsWith l ''#'' \<and> endsWith l marker)" "\<not> (startsWith l ''#'' \<and> iw)" "\<not> iw"
    | (inside) "\<not> (startsWith l ''#'' \<and> endsWith l marker)" "\<not> (startsWith l ''#'' \<and> iw)" "iw"
    by blast
  then show ?case
  proof cases
    case marker
    then have wl: "\<And>xs. workload marker iw i (l # xs) = workload marker True (Suc i) xs" by simp
    from Cons.prems have "list_all (\<lambda>(j, l). known (issues w) l) (workload marker True (Suc i) ls)"
      "sameStatus (workload marker True (Suc i) ls)"
      by (simp_all only: wl)
    from Cons.IH [OF Cons.prems(1) this] obtain ls' w' where
      r: "epicLines marker e True ls w = (Some ls', w')" "length ls' = length ls" "failing w' = {}"
         "list_all (\<lambda>(j, l). agrees (issues w') l) (workload marker True (Suc i) ls')"
         "sameTasks (issues w) (issues w')"
         "\<forall>k. settled (issues w) (workload marker True (Suc i) ls) k \<longrightarrow> issues w' k = issues w k"
         "(\<forall>l \<in> set ls. CHR 0x0A \<notin> set l) \<longrightarrow> (\<forall>l \<in> set ls'. CHR 0x0A \<notin> set l)"
      by blast
    have el: "epicLines marker e iw (l # ls) w = (Some (l # ls'), w')"
      using marker r(1) by simp
    show ?thesis
      apply (rule exI [of _ "l # ls'"], rule exI [of _ w'])
      apply (simp only: wl el)
      using r(2-7) apply simp
      done
  next
    case heading
    then have el: "epicLines marker e iw (l # ls) w = (Some (l # ls), w)" by auto
    from heading have wl: "workload marker iw i (l # ls) = []" by auto
    show ?thesis
      apply (rule exI [of _ "l # ls"], rule exI [of _ w])
      apply (simp only: wl el)
      using Cons.prems(1) apply (simp add: sameTasks_refl)
      done
  next
    case outside
    then have wl: "\<And>xs. workload marker iw i (l # xs) = workload marker iw (Suc i) xs" by auto
    from Cons.prems have "list_all (\<lambda>(j, l). known (issues w) l) (workload marker iw (Suc i) ls)"
      "sameStatus (workload marker iw (Suc i) ls)"
      by (simp_all only: wl)
    from Cons.IH [OF Cons.prems(1) this] obtain ls' w' where
      r: "epicLines marker e iw ls w = (Some ls', w')" "length ls' = length ls" "failing w' = {}"
         "list_all (\<lambda>(j, l). agrees (issues w') l) (workload marker iw (Suc i) ls')"
         "sameTasks (issues w) (issues w')"
         "\<forall>k. settled (issues w) (workload marker iw (Suc i) ls) k \<longrightarrow> issues w' k = issues w k"
         "(\<forall>l \<in> set ls. CHR 0x0A \<notin> set l) \<longrightarrow> (\<forall>l \<in> set ls'. CHR 0x0A \<notin> set l)"
      by blast
    have el: "epicLines marker e iw (l # ls) w = (Some (l # ls'), w')"
      using outside r(1) by auto
    show ?thesis
      apply (rule exI [of _ "l # ls'"], rule exI [of _ w'])
      apply (simp only: wl el)
      using r(2-7) apply simp
      done
  next
    case inside
    then have nh: "\<not> startsWith l ''#''" by blast
    from inside have wl: "workload marker iw i (l # ls) = (i, l) # workload marker iw (Suc i) ls"
      by auto
    let ?sec = "workload marker iw (Suc i) ls"
    from Cons.prems(2) have kl: "known (issues w) l" and kr: "list_all (\<lambda>(j, l). known (issues w) l) ?sec"
      unfolding wl by simp_all
    from Cons.prems(3) have ss: "sameStatus ((i, l) # ?sec)"
      unfolding wl .
    note sr = sameStatus_Cons(1) [OF ss]
    note sl = sameStatus_Cons(2) [OF ss]
    from epicLine_known [OF Cons.prems(1) kl, of e i] obtain l' w1 where
      s: "epicLine e l w = (Some l', w1)" "failing w1 = {}" "agrees (issues w1) l'"
         "sameTasks (issues w) (issues w1)"
         "\<forall>k. settled (issues w) [(i, l)] k \<longrightarrow> issues w1 k = issues w k"
         "\<not> startsWith l' ''#''" "CHR 0x0A \<notin> set l \<longrightarrow> CHR 0x0A \<notin> set l'"
         "keyFlags [(i, l')] = keyFlags [(i, l)]"
      using nh by blast
    from Cons.IH [OF s(2) list_all_known_sameTasks [OF s(4) kr] sr] obtain ls' w' where
      r: "epicLines marker e iw ls w1 = (Some ls', w')" "length ls' = length ls" "failing w' = {}"
         "list_all (\<lambda>(j, l). agrees (issues w') l) (workload marker iw (Suc i) ls')"
         "sameTasks (issues w1) (issues w')"
         "\<forall>k. settled (issues w1) ?sec k \<longrightarrow> issues w' k = issues w1 k"
         "(\<forall>l \<in> set ls. CHR 0x0A \<notin> set l) \<longrightarrow> (\<forall>l \<in> set ls'. CHR 0x0A \<notin> set l)"
      by blast
    have el: "epicLines marker e iw (l # ls) w = (Some (l' # ls'), w')"
      using inside s(1) r(1) by auto
    from inside s(6) have wl': "workload marker iw i (l' # ls') = (i, l') # workload marker iw (Suc i) ls'"
      by auto
    have keep: "issues w' k = issues w1 k" if "(k, c) \<in> set (keyFlags [(i, l')])" for k c
    proof -
      have "settled (issues w1) ?sec k"
        unfolding settled_iff
      proof (intro allI impI)
        fix c' t
        assume c': "(k, c') \<in> set (keyFlags ?sec)" and t: "issues w1 k = Some t"
        from that s(8) have "(k, c) \<in> set (keyFlags [(i, l)])" by simp
        from sl [OF this c'] have "c' = c" .
        moreover from agrees_keyFlags [OF s(3) that t] have "c = (issue_state t = ''closed'')" .
        ultimately show "c' = (issue_state t = ''closed'')" by simp
      qed
      with r(6) show ?thesis by blast
    qed
    have "agrees (issues w') l' = agrees (issues w1) l'"
      by (rule agrees_frame [where i = i]) (rule keep)
    with s(3) have a: "agrees (issues w') l'" by simp
    have f: "\<forall>k. settled (issues w) ((i, l) # ?sec) k \<longrightarrow> issues w' k = issues w k"
    proof (intro allI impI)
      fix k
      assume "settled (issues w) ((i, l) # ?sec) k"
      then have "settled (issues w) [(i, l)] k \<and> settled (issues w) ?sec k"
        by (rule settled_Cons [THEN iffD1])
      then have 1: "settled (issues w) [(i, l)] k" and 2: "settled (issues w) ?sec k"
        by blast+
      from s(5) 1 have e1: "issues w1 k = issues w k" by blast
      from 2 have "settled (issues w1) ?sec k"
        by (simp add: settled_cong [of "issues w1" k "issues w", OF e1])
      with r(6) have "issues w' k = issues w1 k" by blast
      with e1 show "issues w' k = issues w k" by simp
    qed
    show ?thesis
      apply (rule exI [of _ "l' # ls'"], rule exI [of _ w'])
      apply (simp only: wl wl' el)
      using r(2,3,4,7) a f s(7) sameTasks_trans [OF s(4) r(5)] apply simp
      done
  qed
qed

lemma consHead_set: "l \<in> set (consHead c ls) \<Longrightarrow> l \<in> set ls \<or> (\<exists>k. l = c # k \<and> (k \<in> set ls \<or> k = []))"
  by (cases ls) auto

lemma splitLines_no_LF: "l \<in> set (splitLines s) \<Longrightarrow> CHR 0x0A \<notin> set l"
proof (induction s arbitrary: l rule: splitLines.induct)
  case 1
  then show ?case by simp
next
  case (2 c)
  then show ?case by (auto split: if_splits)
next
  case (3 c d cs)
  show ?case
  proof (cases "c = CHR 0x0A")
    case True
    with 3 show ?thesis by auto
  next
    case False
    note c = this
    show ?thesis
    proof (cases "c = CHR 0x0D \<and> d = CHR 0x0A")
      case True
      with c 3 show ?thesis by auto
    next
      case False
      with c "3.prems" have "l \<in> set (consHead c (splitLines (d # cs)))" by auto
      from consHead_set [OF this] "3.IH"(3) [OF c False] c show ?thesis
        by auto
    qed
  qed
qed

lemma splitLines_nonempty: "splitLines s \<noteq> []"
  by (induction s rule: splitLines.induct) (auto simp: neq_Nil_conv elim: consHead.elims)

lemma splitLines_line: "CHR 0x0A \<notin> set l \<Longrightarrow> splitLines l = [l]"
proof (induction l rule: splitLines.induct)
  case 1
  then show ?case by simp
next
  case (2 c)
  then show ?case by simp
next
  case (3 c d cs)
  then show ?case by auto
qed

lemma splitLines_append:
  "CHR 0x0A \<notin> set l \<Longrightarrow> splitLines (l @ CHR 0x0D # CHR 0x0A # s) = l # splitLines s"
proof (induction l)
  case Nil
  then show ?case by simp
next
  case (Cons c l)
  then show ?case by (cases l) auto
qed

lemma splitLines_joinLines:
  "ls \<noteq> [] \<Longrightarrow> \<forall>l \<in> set ls. CHR 0x0A \<notin> set l \<Longrightarrow> splitLines (joinLines ls) = ls"
proof (induction ls rule: joinLines.induct)
  case 1
  then show ?case by simp
next
  case (2 l)
  then show ?case by (simp add: splitLines_line)
next
  case (3 l k ls)
  then show ?case by (simp add: splitLines_append)
qed

lemma agrees_body:
  "agrees (applyCall (IssuesUpdateBody n b) s) l = agrees s l"
  by (auto simp: agrees_def split: option.splits)

lemma agrees_close:
  assumes "agrees s l" and "\<And>m. exec l = Some m \<Longrightarrow> closed m = ''x''"
  shows "agrees (applyCall (IssuesUpdateState n ''closed'') s) l"
  using assms by (auto simp: agrees_def split: option.splits if_splits)

lemma allTasksClosed_line:
  assumes "allTasksClosed cfg b" and "(j, l) \<in> set (workload (tasksMarker cfg) False 0 (splitLines b))"
      and "exec l = Some m"
  shows "closed m = ''x''"
proof -
  from assms(2,3) have "m \<in> set (workloadTasks (tasksMarker cfg) (splitLines b))"
    by (force simp: workloadTasks_def map_filter_def image_iff)
  with assms(1) show ?thesis
    by (simp add: allTasksClosed_def Let_def list_all_iff)
qed

lemma updateEpic_first_run:
  assumes ep: "issues w (issue_number epicIssue) = Some epicIssue"
      and nf: "failing w = {}"
      and kn: "list_all (\<lambda>(j, l). known (issues w) l)
                 (workload (tasksMarker cfg) False 0 (splitLines (issue_body epicIssue)))"
      and di: "sameStatus (workload (tasksMarker cfg) False 0 (splitLines (issue_body epicIssue)))"
  shows "\<exists>w3 epic1. updateEpic cfg epicIssue w = (True, w3) \<and> failing w3 = {}
           \<and> issues w3 (issue_number epicIssue) = Some epic1
           \<and> issue_number epic1 = issue_number epicIssue
           \<and> joinLines (splitLines (issue_body epic1)) = issue_body epic1
           \<and> inSync cfg (issues w3) (splitLines (issue_body epic1))"
proof -
  let ?n = "issue_number epicIssue"
  let ?ls = "splitLines (issue_body epicIssue)"
  let ?mk = "tasksMarker cfg"
  from epicLines_sync [OF nf kn di, of ?n] obtain ls' w' where
    r: "epicLines ?mk ?n False ?ls w = (Some ls', w')" "length ls' = length ?ls" "failing w' = {}"
       "list_all (\<lambda>(j, l). agrees (issues w') l) (workload ?mk False 0 ls')"
       "sameTasks (issues w) (issues w')"
       "(\<forall>l \<in> set ?ls. CHR 0x0A \<notin> set l) \<longrightarrow> (\<forall>l \<in> set ls'. CHR 0x0A \<notin> set l)"
    by blast
  have loop: "updateEpicLoop cfg ?n (length ?ls) ?ls 0 False w = (Some ls', w')"
    using updateEpicLoop_epicLines [OF refl, of 0 ?ls cfg ?n False w] r(1) by simp
  from r(2) splitLines_nonempty [of "issue_body epicIssue"] have ne: "ls' \<noteq> []" by auto
  from r(6) splitLines_no_LF have nl: "\<forall>l \<in> set ls'. CHR 0x0A \<notin> set l" by blast
  let ?b = "joinLines ls'"
  have sp: "splitLines ?b = ls'" by (rule splitLines_joinLines [OF ne nl])
  from r(5) ep obtain e' where e': "issues w' ?n = Some e'" "issue_number e' = ?n"
    by (auto simp: sameTasks_def dest!: spec [of _ ?n])
  let ?w2 = "w'\<lparr>calls := calls w' @ [(IssuesUpdateBody ?n ?b, True)],
                issues := applyCall (IssuesUpdateBody ?n ?b) (issues w')\<rparr>"
  have tc: "tryCall (IssuesUpdateBody ?n ?b) w' = (True, ?w2)"
    using r(3) by (simp add: tryCall_ok)
  have i2: "issues ?w2 ?n = Some (e'\<lparr>issue_body := ?b\<rparr>)"
    using e' by simp
  have a2: "list_all (\<lambda>(j, l). agrees (issues ?w2) l) (workload ?mk False 0 ls')"
    using r(4) by (auto simp: list_all_iff agrees_body simp del: applyCall.simps)
  have f2: "failing ?w2 = {}" using r(3) by simp
  show ?thesis
  proof (cases "closeCompletedEpics cfg \<noteq> [] \<and> allTasksClosed cfg ?b")
    case False
    have "updateEpic cfg epicIssue w = (True, ?w2)"
    proof (cases "closeCompletedEpics cfg = []")
      case True
      with loop tc show ?thesis by (simp add: updateEpic_def Let_def)
    next
      case False
      with \<open>\<not> (closeCompletedEpics cfg \<noteq> [] \<and> allTasksClosed cfg ?b)\<close>
      have "\<not> allTasksClosed cfg ?b" by simp
      from closeEpicIfComplete_not [OF this, of ?n ?w2] False loop tc show ?thesis
        by (simp add: updateEpic_def Let_def)
    qed
    with f2 i2 e' a2 sp show ?thesis
      by (intro exI [of _ ?w2] exI [of _ "e'\<lparr>issue_body := ?b\<rparr>"]) (simp add: inSync_def)
  next
    case True
    let ?w3 = "?w2\<lparr>calls := calls ?w2 @
                 [(IssuesCreateComment ?n ''`EpicBot` closed this Epic as all tasks are complete.'', True),
                  (IssuesUpdateState ?n ''closed'', True)],
              issues := applyCall (IssuesUpdateState ?n ''closed'') (issues ?w2)\<rparr>"
    from f2 have nf2: "length (calls ?w2) \<notin> failing ?w2" "Suc (length (calls ?w2)) \<notin> failing ?w2"
      by simp_all
    from True have atc: "allTasksClosed cfg ?b" by simp
    have ce: "closeEpicIfComplete cfg ?n ?b ?w2 = (True, ?w3)"
      by (rule closeEpicIfComplete_yes [OF atc nf2])
    have ue: "updateEpic cfg epicIssue w = (True, ?w3)"
      using True loop tc ce by (simp add: updateEpic_def Let_def)
    have i3: "issues ?w3 ?n = Some (e'\<lparr>issue_body := ?b, issue_state := ''closed''\<rparr>)"
      using e' by simp
    have a3: "list_all (\<lambda>(j, l). agrees (issues ?w3) l) (workload ?mk False 0 ls')"
    proof -
      have "agrees (applyCall (IssuesUpdateState ?n ''closed'') (issues ?w2)) l"
        if "(j, l) \<in> set (workload ?mk False 0 ls')" for j l
      proof (rule agrees_close)
        from a2 that show "agrees (issues ?w2) l" unfolding list_all_iff by blast
        fix m assume "exec l = Some m"
        with allTasksClosed_line [OF atc, of j l m] that sp show "closed m = ''x''" by simp
      qed
      then show ?thesis by (auto simp: list_all_iff simp del: applyCall.simps)
    qed
    have f3: "failing ?w3 = {}" using r(3) by simp
    from ue f3 i3 e' a3 sp show ?thesis
      by (intro exI [of _ ?w3] exI [of _ "e'\<lparr>issue_body := ?b, issue_state := ''closed''\<rparr>"])
         (simp add: inSync_def)
  qed
qed

section \<open>The claims\<close>

text \<open>
  C1 (as amended). A checklist line made of an indent of spaces, a status of \<open>x\<close> or a
  space, a number in decimal without leading zeros, one space and a title that neither
  begins with a space nor holds a carriage return or a line feed, is reproduced
  character for character by parsing it and rendering the groups again.
\<close>

theorem rerender_renderLine:
  assumes "\<forall>x \<in> set p. isSpace x"
      and "\<forall>x \<in> set t. \<not> isLineTerminator x"
      and "t = [] \<or> \<not> isSpace (hd t)"
  shows "rerender (renderLine p c n t) = Some (renderLine p c n t)"
proof -
  have "exec (renderLine p c n t) =
          Some \<lparr>pre = p, closed = (if c then ''x'' else '' ''), number = showNat n, title = t\<rparr>"
    using assms by (intro exec_renderLine) auto
  then show ?thesis
    by (simp add: rerender_def parseInt_showNat)
qed

theorem rerender_renderLine_witness:
  "renderLine ''  '' True 42 ''Old title'' = ''  - [x] #42 Old title''
   \<and> rerender ''  - [x] #42 Old title'' = Some ''  - [x] #42 Old title''"
proof -
  have a: "\<forall>x \<in> set ''  ''. isSpace x" by (simp add: isSpace_def)
  have b: "\<forall>x \<in> set ''Old title''. \<not> isLineTerminator x" by (simp add: isLineTerminator_def)
  have c: "\<not> isSpace (hd ''Old title'')" by (simp add: isSpace_def)
  have d: "renderLine ''  '' True 42 ''Old title'' = ''  - [x] #42 Old title''"
    by (simp add: renderLine_def showNat.simps digitChar_def)
  from c have c': "''Old title'' = [] \<or> \<not> isSpace (hd ''Old title'')" by simp
  from rerender_renderLine [OF a b c', of True 42] d show ?thesis
    by simp
qed

text \<open>The claim as it was stated fails on a line with a second space after the number,
  and on a number written with leading zeros: the expression takes every space after the
  number and one is written back, and the number is written back from its value.\<close>

theorem rerender_second_space_counterexample:
  "rerender ''- [x] #1  A'' = Some ''- [x] #1 A'' \<and> rerender ''- [x] #1  A'' \<noteq> Some ''- [x] #1  A''
   \<and> rerender ''- [x] #007 A'' = Some ''- [x] #7 A'' \<and> rerender ''- [x] #007 A'' \<noteq> Some ''- [x] #007 A''"
  by (simp add: eval_defs)

text \<open>
  C2 (as amended). When the line matches, the numbers are equal and the state or the
  title differs, \<open>updateTask\<close> with the Epic as the truth returns the line rebuilt from
  the indent and the status of the input line and from the number and the title of the
  task. When the states differ and the two calls succeed, it sets the state of the task
  to the status of the line and comments on the task; when they agree it makes no call.
  The new line is the input line when the titles are equal and the input line is one
  that parsing and rendering reproduce.
\<close>

theorem updateTask_epic_is_truth:
  assumes "exec taskLine = Some m"
      and "parseInt (number m) = issue_number taskIssue"
      and "(closed m = ''x'') \<noteq> (issue_state taskIssue = ''closed'') \<or> title m \<noteq> issue_title taskIssue"
      and "length (calls w) \<notin> failing w" and "Suc (length (calls w)) \<notin> failing w"
  shows "updateTask epicNumber taskLine taskIssue False w =
     (RUpdate (renderLine (pre m) (closed m = ''x'') (issue_number taskIssue) (issue_title taskIssue))
              (epicComment ((closed m = ''x'') \<noteq> (issue_state taskIssue = ''closed''))
                           (title m \<noteq> issue_title taskIssue) (closed m = ''x'') (issue_number taskIssue)),
      if (closed m = ''x'') \<noteq> (issue_state taskIssue = ''closed'') then
        w\<lparr>calls := calls w @
             [(IssuesUpdateState (issue_number taskIssue) (if closed m = ''x'' then ''closed'' else ''open''), True),
              (IssuesCreateComment (issue_number taskIssue)
                 (''`EpicBot` '' @ (if closed m = ''x'' then ''closed'' else ''re-opened'')
                  @ '' this issue following changes in Epic #'' @ showNat epicNumber @ ''.''), True)],
           issues := applyCall (IssuesUpdateState (issue_number taskIssue)
                                  (if closed m = ''x'' then ''closed'' else ''open'')) (issues w)\<rparr>
      else w)
   \<and> (title m = issue_title taskIssue \<and> rerender taskLine = Some taskLine \<longrightarrow>
        renderLine (pre m) (closed m = ''x'') (issue_number taskIssue) (issue_title taskIssue) = taskLine)"
proof
  show "updateTask epicNumber taskLine taskIssue False w =
     (RUpdate (renderLine (pre m) (closed m = ''x'') (issue_number taskIssue) (issue_title taskIssue))
              (epicComment ((closed m = ''x'') \<noteq> (issue_state taskIssue = ''closed''))
                           (title m \<noteq> issue_title taskIssue) (closed m = ''x'') (issue_number taskIssue)),
      if (closed m = ''x'') \<noteq> (issue_state taskIssue = ''closed'') then
        w\<lparr>calls := calls w @
             [(IssuesUpdateState (issue_number taskIssue) (if closed m = ''x'' then ''closed'' else ''open''), True),
              (IssuesCreateComment (issue_number taskIssue)
                 (''`EpicBot` '' @ (if closed m = ''x'' then ''closed'' else ''re-opened'')
                  @ '' this issue following changes in Epic #'' @ showNat epicNumber @ ''.''), True)],
           issues := applyCall (IssuesUpdateState (issue_number taskIssue)
                                  (if closed m = ''x'' then ''closed'' else ''open'')) (issues w)\<rparr>
      else w)"
    by (rule updateTask_epic [OF assms])
  show "title m = issue_title taskIssue \<and> rerender taskLine = Some taskLine \<longrightarrow>
        renderLine (pre m) (closed m = ''x'') (issue_number taskIssue) (issue_title taskIssue) = taskLine"
    using assms(1,2) by (auto simp: rerender_def)
qed

text \<open>The second scenario of the specification: the line was closed by hand in the Epic
  and the task is still open.\<close>

theorem updateTask_epic_is_truth_witness:
  "fst (updateTask 7 ''- [x] #42 Old title'' (task 42 ''Old title'' ''open'') False
          (store [42 \<mapsto> task 42 ''Old title'' ''open''] (\<lambda>n. []) {}))
     = RUpdate ''- [x] #42 Old title'' None
   \<and> calls (snd (updateTask 7 ''- [x] #42 Old title'' (task 42 ''Old title'' ''open'') False
          (store [42 \<mapsto> task 42 ''Old title'' ''open''] (\<lambda>n. []) {})))
     = [(IssuesUpdateState 42 ''closed'', True),
        (IssuesCreateComment 42 ''`EpicBot` closed this issue following changes in Epic #7.'', True)]
   \<and> issues (snd (updateTask 7 ''- [x] #42 Old title'' (task 42 ''Old title'' ''open'') False
          (store [42 \<mapsto> task 42 ''Old title'' ''open''] (\<lambda>n. []) {}))) 42
     = Some (task 42 ''Old title'' ''closed'')"
proof -
  let ?m = "\<lparr>pre = [], closed = ''x'', number = ''42'', title = ''Old title''\<rparr>"
  let ?w = "store [42 \<mapsto> task 42 ''Old title'' ''open''] (\<lambda>n. []) {}"
  have a: "exec ''- [x] #42 Old title'' = Some ?m" by (simp add: eval_defs)
  have b: "parseInt (number ?m) = issue_number (task 42 ''Old title'' ''open'')" by (simp add: eval_defs)
  have c: "(closed ?m = ''x'') \<noteq> (issue_state (task 42 ''Old title'' ''open'') = ''closed'')
           \<or> title ?m \<noteq> issue_title (task 42 ''Old title'' ''open'')" by (simp add: eval_defs)
  have d: "length (calls ?w) \<notin> failing ?w" "Suc (length (calls ?w)) \<notin> failing ?w" by (simp_all add: eval_defs)
  from updateTask_epic_is_truth [OF a b c d, of 7] show ?thesis
    by (simp add: eval_defs)
qed

text \<open>The claim as it was stated fails when the title differs: the new line carries the
  title of the task, not the one of the input line.\<close>

theorem updateTask_epic_is_truth_counterexample:
  "fst (updateTask 7 ''- [ ] #42 Old title'' (task 42 ''New title'' ''open'') False
          (store [42 \<mapsto> task 42 ''New title'' ''open''] (\<lambda>n. []) {}))
     = RUpdate ''- [ ] #42 New title'' (Some ''`EpicBot` refreshed the title for task #42.'')
   \<and> ''- [ ] #42 New title'' \<noteq> ''- [ ] #42 Old title''"
  by (simp add: eval_defs)

text \<open>
  C3 (as amended). Take an Epic that is in the store and a run in which no call fails:
  every task named in the workload section is in the store under its number. Let the
  titles of these tasks have no space in front and no line break, and let no two lines of
  the section name the same task with different status. Then the first Epic-driven run
  succeeds, and a second run at once, on the Epic as the first one persisted it, changes
  no task and posts no comment for a line. It does persist the body once more, with the
  text that is already there, and, when \<open>closeCompletedEpics\<close> is set and every task is
  closed, it posts the completion comment and closes the Epic once more. (Without the two
  conditions the second run is not quiet either: two lines that name one task with
  different status close and re-open the task on every run, and a title that the line
  does not give back has its comment posted on every run.)
\<close>

theorem updateEpic_second_run:
  assumes ep: "issues w (issue_number epicIssue) = Some epicIssue"
      and nf: "failing w = {}"
      and kn: "list_all (\<lambda>(j, l). known (issues w) l)
                 (workload (tasksMarker cfg) False 0 (splitLines (issue_body epicIssue)))"
      and di: "sameStatus (workload (tasksMarker cfg) False 0 (splitLines (issue_body epicIssue)))"
  shows "fst (updateEpic cfg epicIssue w)
         \<and> (\<exists>epic1. issues (snd (updateEpic cfg epicIssue w)) (issue_number epicIssue) = Some epic1
               \<and> issue_number epic1 = issue_number epicIssue
               \<and> fst (updateEpic cfg epic1 (snd (updateEpic cfg epicIssue w)))
               \<and> secondRunMutations cfg epicIssue w =
                   IssuesUpdateBody (issue_number epicIssue) (issue_body epic1) #
                   (if closeCompletedEpics cfg \<noteq> [] \<and> allTasksClosed cfg (issue_body epic1)
                    then [IssuesCreateComment (issue_number epicIssue)
                            ''`EpicBot` closed this Epic as all tasks are complete.'',
                          IssuesUpdateState (issue_number epicIssue) ''closed'']
                    else []))"
proof -
  from updateEpic_first_run [OF assms] obtain w3 epic1 where
    r: "updateEpic cfg epicIssue w = (True, w3)" "failing w3 = {}"
       "issues w3 (issue_number epicIssue) = Some epic1"
       "issue_number epic1 = issue_number epicIssue"
       "joinLines (splitLines (issue_body epic1)) = issue_body epic1"
       "inSync cfg (issues w3) (splitLines (issue_body epic1))"
    by blast
  from r(2) have nf3: "\<forall>k \<ge> length (calls w3). k \<notin> failing w3" by simp
  note second = updateEpic_inSync [OF r(6) nf3]
  from second r(1,3) have "secondRunMutations cfg epicIssue w =
      IssuesUpdateBody (issue_number epic1) (joinLines (splitLines (issue_body epic1))) #
      (if closeCompletedEpics cfg \<noteq> [] \<and> allTasksClosed cfg (joinLines (splitLines (issue_body epic1)))
       then [IssuesCreateComment (issue_number epic1) ''`EpicBot` closed this Epic as all tasks are complete.'',
             IssuesUpdateState (issue_number epic1) ''closed'']
       else [])"
    by (simp add: secondRunMutations_def Let_def)
  with second r show ?thesis
    by (intro conjI exI [of _ epic1]) simp_all
qed

text \<open>Two instances. In the first, two lines name task #1, both closed and both with an
  old title: the first run closes the task and refreshes both lines, the second only
  persists the body. In the second, \<open>closeCompletedEpics\<close> is set: the first run closes
  the task and the Epic, and the second persists the body and closes the Epic once more.\<close>

theorem updateEpic_second_run_witness:
  "secondRunMutations workloadConfig (epic 9 [''## Workload'', ''- [x] #1 Old'', ''- [x] #1 Old''])
     (store [1 \<mapsto> task 1 ''A'' ''open'',
             9 \<mapsto> epic 9 [''## Workload'', ''- [x] #1 Old'', ''- [x] #1 Old'']] (\<lambda>n. []) {})
     = [IssuesUpdateBody 9 (joinLines [''## Workload'', ''- [x] #1 A'', ''- [x] #1 A''])]
   \<and> secondRunMutations closingConfig (epic 9 [''## Workload'', ''- [x] #1 A''])
     (store [1 \<mapsto> task 1 ''A'' ''open'', 9 \<mapsto> epic 9 [''## Workload'', ''- [x] #1 A'']] (\<lambda>n. []) {})
     = [IssuesUpdateBody 9 (joinLines [''## Workload'', ''- [x] #1 A'']),
        IssuesCreateComment 9 ''`EpicBot` closed this Epic as all tasks are complete.'',
        IssuesUpdateState 9 ''closed'']"
proof
  let ?e = "epic 9 [''## Workload'', ''- [x] #1 Old'', ''- [x] #1 Old'']"
  let ?e1 = "epic 9 [''## Workload'', ''- [x] #1 A'', ''- [x] #1 A'']"
  let ?w = "store [1 \<mapsto> task 1 ''A'' ''open'', 9 \<mapsto> ?e] (\<lambda>n. []) {}"
  have n: "issue_number ?e = 9" by (simp add: epic_def)
  have a: "issues ?w (issue_number ?e) = Some ?e" by (simp add: store_def epic_def)
  have b: "failing ?w = {}" by (simp add: store_def)
  have c: "list_all (\<lambda>(j, l). known (issues ?w) l)
             (workload (tasksMarker workloadConfig) False 0 (splitLines (issue_body ?e)))"
    by (simp add: known_def cleanTitle_def eval_defs)
  have d: "sameStatus (workload (tasksMarker workloadConfig) False 0 (splitLines (issue_body ?e)))"
    by (simp add: sameStatus_def keyFlags_def eval_defs)
  have i1: "issues (snd (updateEpic workloadConfig ?e ?w)) 9 = Some ?e1" by code_simp
  have cc: "closeCompletedEpics workloadConfig = []" by (simp add: workloadConfig_def)
  have b1: "issue_body ?e1 = joinLines [''## Workload'', ''- [x] #1 A'', ''- [x] #1 A'']"
    by (simp add: epic_def)
  from updateEpic_second_run [OF a b c d] obtain epic1 where
    r: "issues (snd (updateEpic workloadConfig ?e ?w)) (issue_number ?e) = Some epic1"
       "secondRunMutations workloadConfig ?e ?w =
          IssuesUpdateBody (issue_number ?e) (issue_body epic1) #
            (if closeCompletedEpics workloadConfig \<noteq> [] \<and> allTasksClosed workloadConfig (issue_body epic1)
             then [IssuesCreateComment (issue_number ?e) ''`EpicBot` closed this Epic as all tasks are complete.'',
                   IssuesUpdateState (issue_number ?e) ''closed'']
             else [])"
    by blast
  from r(1) i1 have e1: "epic1 = ?e1" by (simp only: n option.inject)
  from r(2) show "secondRunMutations workloadConfig ?e ?w
      = [IssuesUpdateBody 9 (joinLines [''## Workload'', ''- [x] #1 A'', ''- [x] #1 A''])]"
    unfolding e1 n cc b1 by simp
next
  let ?e = "epic 9 [''## Workload'', ''- [x] #1 A'']"
  let ?e1 = "(epic 9 [''## Workload'', ''- [x] #1 A''])\<lparr>issue_state := ''closed''\<rparr>"
  let ?w = "store [1 \<mapsto> task 1 ''A'' ''open'', 9 \<mapsto> ?e] (\<lambda>n. []) {}"
  have n: "issue_number ?e = 9" by (simp add: epic_def)
  have a: "issues ?w (issue_number ?e) = Some ?e" by (simp add: store_def epic_def)
  have b: "failing ?w = {}" by (simp add: store_def)
  have c: "list_all (\<lambda>(j, l). known (issues ?w) l)
             (workload (tasksMarker closingConfig) False 0 (splitLines (issue_body ?e)))"
    by (simp add: known_def cleanTitle_def closingConfig_def eval_defs)
  have d: "sameStatus (workload (tasksMarker closingConfig) False 0 (splitLines (issue_body ?e)))"
    by (simp add: sameStatus_def keyFlags_def closingConfig_def eval_defs)
  have i1: "issues (snd (updateEpic closingConfig ?e ?w)) 9 = Some ?e1" by code_simp
  have cc: "closeCompletedEpics closingConfig \<noteq> []" by (simp add: closingConfig_def)
  have b1: "issue_body ?e1 = joinLines [''## Workload'', ''- [x] #1 A'']"
    by (simp add: epic_def)
  have atc: "allTasksClosed closingConfig (joinLines [''## Workload'', ''- [x] #1 A''])"
    by (simp add: allTasksClosed_def workloadTasks_def closingConfig_def eval_defs)
  from updateEpic_second_run [OF a b c d] obtain epic1 where
    r: "issues (snd (updateEpic closingConfig ?e ?w)) (issue_number ?e) = Some epic1"
       "secondRunMutations closingConfig ?e ?w =
          IssuesUpdateBody (issue_number ?e) (issue_body epic1) #
            (if closeCompletedEpics closingConfig \<noteq> [] \<and> allTasksClosed closingConfig (issue_body epic1)
             then [IssuesCreateComment (issue_number ?e) ''`EpicBot` closed this Epic as all tasks are complete.'',
                   IssuesUpdateState (issue_number ?e) ''closed'']
             else [])"
    by blast
  from r(1) i1 have e1: "epic1 = ?e1" by (simp only: n option.inject)
  from r(2) cc atc show "secondRunMutations closingConfig ?e ?w
      = [IssuesUpdateBody 9 (joinLines [''## Workload'', ''- [x] #1 A'']),
         IssuesCreateComment 9 ''`EpicBot` closed this Epic as all tasks are complete.'',
         IssuesUpdateState 9 ''closed'']"
    unfolding e1 n b1 by simp
qed

text \<open>
  C3 (counterexample). Five second runs that are not without mutations. The body and
  the store agree and the body is already joined with CRLF: the body is persisted again.
  Two lines name task #1, one closed and one open: the task is closed and re-opened
  again, with both comments. The title of the task begins with a space, which the line
  does not give back: the comment on the refreshed title is posted again. The title of
  the task has a line feed in it, so the line is read back as two: the comment is posted
  again and the body grows by a line. And with \<open>closeCompletedEpics\<close> set on a complete
  Epic, the completion comment is posted and the Epic closed again.
\<close>

theorem updateEpic_second_run_counterexample:
  "secondRunMutations workloadConfig (epic 9 [''## Workload'', ''- [x] #1 A''])
     (store [1 \<mapsto> task 1 ''A'' ''closed'', 9 \<mapsto> epic 9 [''## Workload'', ''- [x] #1 A'']] (\<lambda>n. []) {})
     = [IssuesUpdateBody 9 (joinLines [''## Workload'', ''- [x] #1 A''])]
   \<and> secondRunMutations workloadConfig (epic 9 [''## Workload'', ''- [x] #1 A'', ''- [ ] #1 A''])
     (store [1 \<mapsto> task 1 ''A'' ''open'',
             9 \<mapsto> epic 9 [''## Workload'', ''- [x] #1 A'', ''- [ ] #1 A'']] (\<lambda>n. []) {})
     = [IssuesUpdateState 1 ''closed'',
        IssuesCreateComment 1 ''`EpicBot` closed this issue following changes in Epic #9.'',
        IssuesUpdateState 1 ''open'',
        IssuesCreateComment 1 ''`EpicBot` re-opened this issue following changes in Epic #9.'',
        IssuesUpdateBody 9 (joinLines [''## Workload'', ''- [x] #1 A'', ''- [ ] #1 A''])]
   \<and> secondRunMutations workloadConfig (epic 9 [''## Workload'', ''- [x] #1 A''])
     (store [1 \<mapsto> task 1 '' A'' ''closed'', 9 \<mapsto> epic 9 [''## Workload'', ''- [x] #1 A'']] (\<lambda>n. []) {})
     = [IssuesCreateComment 9 ''`EpicBot` refreshed the title for task #1.'',
        IssuesUpdateBody 9 (joinLines [''## Workload'', ''- [x] #1  A''])]
   \<and> secondRunMutations workloadConfig (epic 9 [''## Workload'', ''- [x] #1 A''])
     (store [1 \<mapsto> task 1 (''A'' @ [CHR 0x0A] @ ''B'') ''closed'',
             9 \<mapsto> epic 9 [''## Workload'', ''- [x] #1 A'']] (\<lambda>n. []) {})
     = [IssuesCreateComment 9 ''`EpicBot` refreshed the title for task #1.'',
        IssuesUpdateBody 9 (joinLines [''## Workload'', ''- [x] #1 A'' @ [CHR 0x0A] @ ''B'', ''B''])]
   \<and> secondRunMutations closingConfig (epic 9 [''## Workload'', ''- [x] #1 A''])
     (store [1 \<mapsto> task 1 ''A'' ''closed'', 9 \<mapsto> epic 9 [''## Workload'', ''- [x] #1 A'']] (\<lambda>n. []) {})
     = [IssuesUpdateBody 9 (joinLines [''## Workload'', ''- [x] #1 A'']),
        IssuesCreateComment 9 ''`EpicBot` closed this Epic as all tasks are complete.'',
        IssuesUpdateState 9 ''closed'']"
  by code_simp

text \<open>
  C4. In a task-driven pass, an Epic in whose workload section the task is not found
  should not keep the later cross-referencing Epics from being updated. The code
  returns at the first such Epic: with the unchanged Epic #10 first in the timeline, the
  only call is the one that lists the timeline and Epic #11 is never updated; with Epic
  #11 first, its body is updated and the comment posted.
\<close>

theorem updateEpicFromTask_returns_at_unchanged_epic:
  "(case updateEpicFromTask workloadConfig (task 5 ''New'' ''open'')
           (store Map.empty
              (\<lambda>n. if n = 5 then [crossReference (epic 10 [''## Workload'', ''- [ ] #6 Other'']),
                                  crossReference (epic 11 [''## Workload'', ''- [ ] #5 Old''])]
                    else []) {})
    of (r, w) \<Rightarrow> (r, map fst (calls w), failed w))
     = (False, [IssuesListEventsForTimeline 5], False)
   \<and> (case updateEpicFromTask workloadConfig (task 5 ''New'' ''open'')
           (store Map.empty
              (\<lambda>n. if n = 5 then [crossReference (epic 11 [''## Workload'', ''- [ ] #5 Old'']),
                                  crossReference (epic 10 [''## Workload'', ''- [ ] #6 Other''])]
                    else []) {})
    of (r, w) \<Rightarrow> (r, map fst (calls w), failed w))
     = (False,
        [IssuesListEventsForTimeline 5,
         IssuesUpdateBody 11 (joinLines [''## Workload'', ''- [ ] #5 New'']),
         IssuesCreateComment 11 ''`EpicBot` refreshed the title for task #5.''],
        False)"
  by code_simp



text \<open>
  C6. The first scenario of the specification: for the line \<open>- [ ] #42 Old title\<close> and
  the task #42 with the title \<open>New title\<close> and the state \<open>closed\<close>, \<open>updateTask\<close> with the
  task as the truth returns the line \<open>- [x] #42 New title\<close> and one comment that names
  both the refreshed title and the new state; it makes no call.
\<close>

theorem updateTask_task_is_truth_scenario:
  "updateTask epicNumber ''- [ ] #42 Old title''
     \<lparr>issue_number = 42, issue_title = ''New title'', issue_body = b, issue_state = ''closed''\<rparr> True w
   = (RUpdate ''- [x] #42 New title''
        (Some ''`EpicBot` refreshed the title for task #42 and marked it as `closed`.''), w)"
  by (simp add: eval_defs)

text \<open>
  C7. When the line matches, the numbers are equal, the closed flag of the line agrees
  with the state of the task and the titles are equal, \<open>updateTask\<close> returns \<open>null\<close> in
  both directions and leaves the world as it was: no new line, no comment, no call.
\<close>

theorem updateTask_agreeing_is_null:
  assumes "exec taskLine = Some m"
      and "parseInt (number m) = issue_number taskIssue"
      and "(closed m = ''x'') = (issue_state taskIssue = ''closed'')"
      and "title m = issue_title taskIssue"
  shows "updateTask epicNumber taskLine taskIssue taskIsTruth w = (RNull, w)"
  by (rule updateTask_null [OF assms])

theorem updateTask_agreeing_is_null_witness:
  "fst (updateTask 7 ''- [x] #42 Old title'' (task 42 ''Old title'' ''closed'') True (store Map.empty (\<lambda>n. []) {})) = RNull
   \<and> fst (updateTask 7 ''- [x] #42 Old title'' (task 42 ''Old title'' ''closed'') False (store Map.empty (\<lambda>n. []) {})) = RNull
   \<and> calls (snd (updateTask 7 ''- [x] #42 Old title'' (task 42 ''Old title'' ''closed'') False (store Map.empty (\<lambda>n. []) {}))) = []"
proof -
  let ?m = "\<lparr>pre = [], closed = ''x'', number = ''42'', title = ''Old title''\<rparr>"
  let ?t = "task 42 ''Old title'' ''closed''"
  have a: "exec ''- [x] #42 Old title'' = Some ?m" by (simp add: eval_defs)
  have b: "parseInt (number ?m) = issue_number ?t" by (simp add: eval_defs)
  have c: "(closed ?m = ''x'') = (issue_state ?t = ''closed'')" by (simp add: eval_defs)
  have d: "title ?m = issue_title ?t" by (simp add: eval_defs)
  from updateTask_agreeing_is_null [OF a b c d, of 7 True "store Map.empty (\<lambda>n. []) {}"]
       updateTask_agreeing_is_null [OF a b c d, of 7 False "store Map.empty (\<lambda>n. []) {}"]
  show ?thesis by (simp add: store_def)
qed

text \<open>
  C8. A line whose checkbox pattern is preceded by other text should yield no match. The
  task expression has no anchor, so \<open>exec\<close> finds the pattern inside the line: the text
  before it is skipped and the spaces in front of the dash become the indent, and a line
  rebuilt from the groups has lost that text. A number that is not numeric yields no
  match.
\<close>

theorem exec_matches_inside_line:
  "exec ''foo - [x] #1 t'' = Some \<lparr>pre = '' '', closed = ''x'', number = ''1'', title = ''t''\<rparr>
   \<and> fst (updateTask 9 ''foo - [x] #1 t'' (task 1 ''New'' ''closed'') True (store Map.empty (\<lambda>n. []) {}))
       = RUpdate '' - [x] #1 New'' (Some ''`EpicBot` refreshed the title for task #1.'')
   \<and> exec ''- [x] #a t'' = None"
  by (simp add: eval_defs)

text \<open>
  C9. Once a call to the Issue Store fails on a checklist line, no later line should be
  processed. When the update of the state of task #1 fails, \<open>updateTask\<close> returns false,
  which the loop of \<open>updateEpic\<close> takes for nothing to update: the pass goes on to fetch
  and close task #2, comments on it, persists the body and returns true, with the run
  marked as failed.
\<close>

theorem updateEpic_continues_after_failed_update:
  "(case updateEpic workloadConfig (epic 9 [''## Workload'', ''- [x] #1 A'', ''- [x] #2 B''])
           (store [1 \<mapsto> task 1 ''A'' ''open'', 2 \<mapsto> task 2 ''B'' ''open''] (\<lambda>n. []) {1})
    of (r, w) \<Rightarrow> (r, calls w, failed w))
     = (True,
        [(IssuesGet 1, True), (IssuesUpdateState 1 ''closed'', False),
         (IssuesGet 2, True), (IssuesUpdateState 2 ''closed'', True),
         (IssuesCreateComment 2 ''`EpicBot` closed this issue following changes in Epic #9.'', True),
         (IssuesUpdateBody 9 (joinLines [''## Workload'', ''- [x] #1 A'', ''- [x] #2 B'']), True)],
        True)"
  by code_simp

text \<open>
  C10. \<open>updateTaskInEpic\<close> goes to the first checklist line of the workload section that
  carries the number of the task, whatever lines come before it, and stops there. If the
  section has no such line, or that line needs no change, it returns \<open>null\<close>. If that
  line differs from the task in state or in title, it returns the lines of the input
  joined again, with that line alone replaced by the line rebuilt from the task: every
  later line with that number and every other line is the line of the input. No call
  is made.
\<close>

theorem updateTaskInEpic_rewrites_first_line_only:
  "updateTaskInEpic cfg epicNumber epicBody taskIssue w =
     (case taskLineIndices (tasksMarker cfg) (issue_number taskIssue) (splitLines epicBody) of
        [] \<Rightarrow> (None, w)
      | i # later \<Rightarrow>
          (case fst (updateTask epicNumber (splitLines epicBody ! i) taskIssue True w) of
             RUpdate line comment \<Rightarrow> (Some (joinLines ((splitLines epicBody)[i := line]), comment), w)
           | _ \<Rightarrow> (None, w)))
   \<and> (\<forall>i later m.
         taskLineIndices (tasksMarker cfg) (issue_number taskIssue) (splitLines epicBody) = i # later
         \<and> exec (splitLines epicBody ! i) = Some m
         \<and> ((closed m = ''x'') \<noteq> (issue_state taskIssue = ''closed'') \<or> title m \<noteq> issue_title taskIssue)
         \<longrightarrow>
         i < length (splitLines epicBody)
         \<and> updateTaskInEpic cfg epicNumber epicBody taskIssue w =
             (Some (joinLines ((splitLines epicBody)
                      [i := renderLine (pre m) (issue_state taskIssue = ''closed'')
                              (issue_number taskIssue) (issue_title taskIssue)]),
                    taskComment ((closed m = ''x'') \<noteq> (issue_state taskIssue = ''closed''))
                      (title m \<noteq> issue_title taskIssue) (issue_state taskIssue = ''closed'')
                      (issue_number taskIssue)), w))
   \<and> (\<forall>newBody comment w'.
         updateTaskInEpic cfg epicNumber epicBody taskIssue w = (Some (newBody, comment), w') \<longrightarrow>
         (\<exists>i line.
            taskLineIndices (tasksMarker cfg) (issue_number taskIssue) (splitLines epicBody) \<noteq> []
            \<and> i = hd (taskLineIndices (tasksMarker cfg) (issue_number taskIssue) (splitLines epicBody))
            \<and> i < length (splitLines epicBody)
            \<and> updateTask epicNumber (splitLines epicBody ! i) taskIssue True w = (RUpdate line comment, w)
            \<and> newBody = joinLines ((splitLines epicBody)[i := line])
            \<and> (\<forall>j. j \<noteq> i \<longrightarrow> (splitLines epicBody)[i := line] ! j = splitLines epicBody ! j)
            \<and> w' = w))"
proof (intro conjI allI impI)
  let ?ls = "splitLines epicBody"
  let ?idx = "taskLineIndices (tasksMarker cfg) (issue_number taskIssue) ?ls"
  note eq = updateTaskInEpic_workload [of cfg epicNumber epicBody taskIssue w]
  show "updateTaskInEpic cfg epicNumber epicBody taskIssue w =
     (case ?idx of
        [] \<Rightarrow> (None, w)
      | i # later \<Rightarrow>
          (case fst (updateTask epicNumber (?ls ! i) taskIssue True w) of
             RUpdate line comment \<Rightarrow> (Some (joinLines (?ls[i := line]), comment), w)
           | _ \<Rightarrow> (None, w)))"
    by (rule eq)
  have mem: "i < length ?ls \<and> isTaskLine (issue_number taskIssue) (?ls ! i)" if "?idx = i # later" for i later
  proof -
    from that have "i \<in> set ?idx" by simp
    then obtain l where l: "(i, l) \<in> set (workload (tasksMarker cfg) False 0 ?ls)"
      "isTaskLine (issue_number taskIssue) l"
      by (auto simp: taskLineIndices_def)
    from workload_index [OF l(1)] l(2) show ?thesis by simp
  qed
  {
    fix i later m
    assume h: "?idx = i # later \<and> exec (?ls ! i) = Some m
         \<and> ((closed m = ''x'') \<noteq> (issue_state taskIssue = ''closed'') \<or> title m \<noteq> issue_title taskIssue)"
    then have idx: "?idx = i # later" and m: "exec (?ls ! i) = Some m"
      and d: "(closed m = ''x'') \<noteq> (issue_state taskIssue = ''closed'') \<or> title m \<noteq> issue_title taskIssue"
      by blast+
    from mem [OF idx] m have n: "parseInt (number m) = issue_number taskIssue"
      by (simp add: isTaskLine_def)
    from mem [OF idx] show "i < length ?ls" by blast
    show "updateTaskInEpic cfg epicNumber epicBody taskIssue w =
             (Some (joinLines (?ls
                      [i := renderLine (pre m) (issue_state taskIssue = ''closed'')
                              (issue_number taskIssue) (issue_title taskIssue)]),
                    taskComment ((closed m = ''x'') \<noteq> (issue_state taskIssue = ''closed''))
                      (title m \<noteq> issue_title taskIssue) (issue_state taskIssue = ''closed'')
                      (issue_number taskIssue)), w)"
      unfolding eq idx by (simp add: updateTask_task [OF m n d])
  }
  {
    fix newBody comment w'
    assume r: "updateTaskInEpic cfg epicNumber epicBody taskIssue w = (Some (newBody, comment), w')"
    from r eq obtain i later where idx: "?idx = i # later"
      by (cases ?idx) auto
    obtain res w1 where u: "updateTask epicNumber (?ls ! i) taskIssue True w = (res, w1)"
      by (cases "updateTask epicNumber (?ls ! i) taskIssue True w")
    with updateTask_truth_world [of epicNumber "?ls ! i" taskIssue w] have w1: "w1 = w" by simp
    from r eq idx u obtain line where
      res: "res = RUpdate line comment" and nb: "newBody = joinLines (?ls[i := line])" and w: "w' = w"
      by (cases res) auto
    show "\<exists>i line.
            ?idx \<noteq> [] \<and> i = hd ?idx \<and> i < length ?ls
            \<and> updateTask epicNumber (?ls ! i) taskIssue True w = (RUpdate line comment, w)
            \<and> newBody = joinLines (?ls[i := line])
            \<and> (\<forall>j. j \<noteq> i \<longrightarrow> ?ls[i := line] ! j = ?ls ! j)
            \<and> w' = w"
      using idx mem [OF idx] u w1 res nb w
      by (intro exI [of _ i] exI [of _ line]) simp
  }
qed

text \<open>The task is listed second in the section and twice: the line of task #6 and the
  later line of task #5 stay as they are.\<close>

theorem updateTaskInEpic_rewrites_first_line_only_witness:
  "taskLineIndices ''Workload'' 5 [''## Workload'', ''- [ ] #6 X'', ''- [ ] #5 Old'', ''- [ ] #5 Old''] = [2, 3]
   \<and> updateTaskInEpic workloadConfig 9
       (joinLines [''## Workload'', ''- [ ] #6 X'', ''- [ ] #5 Old'', ''- [ ] #5 Old''])
       (task 5 ''New'' ''open'') (store Map.empty (\<lambda>n. []) {})
     = (Some (joinLines [''## Workload'', ''- [ ] #6 X'', ''- [ ] #5 New'', ''- [ ] #5 Old''],
              Some ''`EpicBot` refreshed the title for task #5.''),
        store Map.empty (\<lambda>n. []) {})"
proof -
  let ?ls = "[''## Workload'', ''- [ ] #6 X'', ''- [ ] #5 Old'', ''- [ ] #5 Old'']"
  let ?body = "joinLines ?ls"
  let ?t = "task 5 ''New'' ''open''"
  let ?w = "store Map.empty (\<lambda>n. []) {}"
  let ?m = "\<lparr>pre = [], closed = '' '', number = ''5'', title = ''Old''\<rparr>"
  have s: "splitLines ?body = ?ls"
    by simp
  have t: "tasksMarker workloadConfig = ''Workload''" "issue_number ?t = 5"
    "issue_title ?t = ''New''" "issue_state ?t = ''open''"
    by (simp_all add: eval_defs)
  have i: "taskLineIndices ''Workload'' 5 ?ls = [2, 3]"
    by (simp add: taskLineIndices_def isTaskLine_def eval_defs)
  have m: "exec (?ls ! 2) = Some ?m"
    by (simp add: eval_defs)
  have r: "renderLine [] False 5 ''New'' = ''- [ ] #5 New''"
    "taskComment False True False 5 = Some ''`EpicBot` refreshed the title for task #5.''"
    by (simp_all add: eval_defs)
  from updateTaskInEpic_rewrites_first_line_only [of workloadConfig 9 ?body ?t ?w]
  have "\<forall>i later m.
         taskLineIndices (tasksMarker workloadConfig) (issue_number ?t) (splitLines ?body) = i # later
         \<and> exec (splitLines ?body ! i) = Some m
         \<and> ((closed m = ''x'') \<noteq> (issue_state ?t = ''closed'') \<or> title m \<noteq> issue_title ?t)
         \<longrightarrow>
         i < length (splitLines ?body)
         \<and> updateTaskInEpic workloadConfig 9 ?body ?t ?w =
             (Some (joinLines ((splitLines ?body)
                      [i := renderLine (pre m) (issue_state ?t = ''closed'') (issue_number ?t) (issue_title ?t)]),
                    taskComment ((closed m = ''x'') \<noteq> (issue_state ?t = ''closed''))
                      (title m \<noteq> issue_title ?t) (issue_state ?t = ''closed'') (issue_number ?t)), ?w)"
    by blast
  from this [unfolded s t, rule_format, of 2 "[3]" ?m] i m
  have "updateTaskInEpic workloadConfig 9 ?body ?t ?w =
          (Some (joinLines (?ls[2 := renderLine [] False 5 ''New'']),
                 taskComment False True False 5), ?w)"
    by simp
  then have "updateTaskInEpic workloadConfig 9 ?body ?t ?w
     = (Some (joinLines [''## Workload'', ''- [ ] #6 X'', ''- [ ] #5 New'', ''- [ ] #5 Old''],
              Some ''`EpicBot` refreshed the title for task #5.''), ?w)"
    unfolding r by simp
  with i show ?thesis by blast
qed

end
